theory Spec2Isabelle
  imports Main "HOL-Library.Multiset"
begin

section \<open>The Blackjack round engine of \<^verbatim>\<open>game.py\<close>\<close>

text \<open>
  The engine is embedded function by function. Python objects become records that are
  passed in and returned updated; an operation that can raise returns an
  \<open>outcome\<close> together with the state the object is left in, because a Python
  exception keeps every mutation made before it was raised.
\<close>

subsection \<open>Enumerations\<close>

datatype GameState = BETTING | PLAYER_TURN | DEALER_TURN | ROUND_OVER | GAME_OVER

datatype RoundResult = VICTORY | LOSS | TIE | BLACKJACK | BUSTED

datatype error = IndexError

datatype 'a outcome = Returns 'a | Raises error

subsection \<open>Card\<close>

text \<open>
  \<^verbatim>\<open>Card\<close> holds two strings. The only place that constructs a card is
  \<^verbatim>\<open>Deck._build_deck\<close>, from the two literal lists of four suits and
  thirteen ranks, so suits and ranks are the enumerations of those literals.
\<close>

datatype suit = Hearts | Diamonds | Clubs | Spades

datatype rank = R2 | R3 | R4 | R5 | R6 | R7 | R8 | R9 | R10 | J | Q | K | A

datatype card = Card (suit: suit) (rank: rank)

text \<open>\<^verbatim>\<open>int(self.rank)\<close> on the nine numeric rank strings.\<close>

fun int_of_rank :: "rank \<Rightarrow> int" where
  "int_of_rank R2 = 2"
| "int_of_rank R3 = 3"
| "int_of_rank R4 = 4"
| "int_of_rank R5 = 5"
| "int_of_rank R6 = 6"
| "int_of_rank R7 = 7"
| "int_of_rank R8 = 8"
| "int_of_rank R9 = 9"
| "int_of_rank R10 = 10"
| "int_of_rank r = 0"

definition card_value :: "card \<Rightarrow> int" where
  "card_value c =
     (if rank c \<in> {J, Q, K} then 10
      else if rank c = A then 11
      else int_of_rank (rank c))"

subsection \<open>Hand\<close>

record Hand =
  cards :: "card list"
  bet :: int

definition Hand_init :: Hand where
  "Hand_init = \<lparr>Hand.cards = [], bet = 0\<rparr>"

text \<open>The loop \<^verbatim>\<open>while value > 21 and aces > 0\<close> of \<^verbatim>\<open>Hand.value\<close>.\<close>

fun soften :: "int \<Rightarrow> nat \<Rightarrow> int" where
  "soften v aces = (if v > 21 \<and> aces > 0 then soften (v - 10) (aces - 1) else v)"

declare soften.simps [simp del]

definition raw_total :: "card list \<Rightarrow> int" where
  "raw_total cs = sum_list (map card_value cs)"

definition ace_count :: "card list \<Rightarrow> nat" where
  "ace_count cs = length (filter (\<lambda>c. rank c = A) cs)"

definition hand_value :: "Hand \<Rightarrow> int" where
  "hand_value h = soften (raw_total (Hand.cards h)) (ace_count (Hand.cards h))"

definition is_blackjack :: "Hand \<Rightarrow> bool" where
  "is_blackjack h \<longleftrightarrow> length (Hand.cards h) = 2 \<and> hand_value h = 21"

definition is_busted :: "Hand \<Rightarrow> bool" where
  "is_busted h \<longleftrightarrow> hand_value h > 21"

definition add_card :: "Hand \<Rightarrow> card \<Rightarrow> Hand" where
  "add_card h c = h\<lparr>Hand.cards := Hand.cards h @ [c]\<rparr>"

definition clear :: "Hand \<Rightarrow> Hand" where
  "clear h = h\<lparr>Hand.cards := [], bet := 0\<rparr>"

text \<open>
  The hard total counts every ace as 1. It is not computed by the program; it is the
  quantity that grows with every card and bounds the dealer's loop.
\<close>

definition hard_total :: "card list \<Rightarrow> int" where
  "hard_total cs = raw_total cs - 10 * int (ace_count cs)"

subsection \<open>The random source and \<^verbatim>\<open>random.shuffle\<close>\<close>

text \<open>
  \<^verbatim>\<open>random.shuffle\<close> belongs to the Python library. It is the Fisher-Yates loop
  \<^verbatim>\<open>for i in reversed(range(1, len(x))): j = randbelow(i + 1); x[i], x[j] = x[j], x[i]\<close>.
  The generator is an unknown infinite supply of numbers: \<open>randbelow n\<close> takes the
  next one modulo \<open>n\<close>. Every theorem below holds for every supply, and every
  permutation is the result of some supply.
\<close>

type_synonym rng = "nat \<Rightarrow> nat"

definition randbelow :: "nat \<Rightarrow> rng \<Rightarrow> nat \<times> rng" where
  "randbelow n t = (t 0 mod n, (\<lambda>i. t (Suc i)))"

fun shuffle_from :: "nat \<Rightarrow> 'a list \<Rightarrow> rng \<Rightarrow> 'a list \<times> rng" where
  "shuffle_from 0 xs t = (xs, t)"
| "shuffle_from (Suc k) xs t =
     (case randbelow (Suc k + 1) t of
        (j, t') \<Rightarrow> shuffle_from k (xs[Suc k := xs ! j, j := xs ! Suc k]) t')"

definition random_shuffle :: "'a list \<Rightarrow> rng \<Rightarrow> 'a list \<times> rng" where
  "random_shuffle xs t = shuffle_from (length xs - 1) xs t"

text \<open>A supply given by its first numbers, continued with zeros.\<close>

definition tape :: "nat list \<Rightarrow> rng" where
  "tape ns = (\<lambda>i. if i < length ns then ns ! i else 0)"

subsection \<open>Deck\<close>

text \<open>
  The field \<open>rnd\<close> is the state of the interpreter's random generator, which
  \<^verbatim>\<open>Deck.shuffle\<close> advances; it is kept with the deck, its only user.
\<close>

record Deck =
  num_decks :: int
  cards :: "card list"
  rnd :: rng

definition suits :: "suit list" where
  "suits = [Hearts, Diamonds, Clubs, Spades]"

definition ranks :: "rank list" where
  "ranks = [R2, R3, R4, R5, R6, R7, R8, R9, R10, J, Q, K, A]"

definition one_deck :: "card list" where
  "one_deck = concat (map (\<lambda>s. map (Card s) ranks) suits)"

text \<open>\<^verbatim>\<open>range(self.num_decks)\<close> is empty when \<^verbatim>\<open>num_decks\<close> is zero or negative.\<close>

definition build_deck :: "Deck \<Rightarrow> Deck" where
  "build_deck d = d\<lparr>Deck.cards := concat (replicate (nat (num_decks d)) one_deck)\<rparr>"

definition shuffle :: "Deck \<Rightarrow> Deck" where
  "shuffle d =
     (case random_shuffle (Deck.cards d) (rnd d) of
        (xs, t) \<Rightarrow> d\<lparr>Deck.cards := xs, rnd := t\<rparr>)"

definition Deck_init :: "int \<Rightarrow> rng \<Rightarrow> Deck" where
  "Deck_init n t = shuffle (build_deck \<lparr>num_decks = n, cards = [], rnd = t\<rparr>)"

text \<open>\<^verbatim>\<open>list.pop()\<close> raises \<^verbatim>\<open>IndexError\<close> on an empty list.\<close>

definition draw :: "Deck \<Rightarrow> card outcome \<times> Deck" where
  "draw d =
     (let d1 = (if Deck.cards d = [] then shuffle (build_deck d) else d)
      in if Deck.cards d1 = [] then (Raises IndexError, d1)
         else (Returns (last (Deck.cards d1)), d1\<lparr>Deck.cards := butlast (Deck.cards d1)\<rparr>))"

definition deck_len :: "Deck \<Rightarrow> nat" where
  "deck_len d = length (Deck.cards d)"

subsection \<open>Player\<close>

record Player =
  name :: string
  bankroll :: int
  hand :: Hand

definition Player_init :: "string \<Rightarrow> int \<Rightarrow> Player" where
  "Player_init n b = \<lparr>name = n, bankroll = b, hand = Hand_init\<rparr>"

definition player_place_bet :: "Player \<Rightarrow> int \<Rightarrow> bool \<times> Player" where
  "player_place_bet p amount =
     (if amount \<le> bankroll p
      then (True, p\<lparr>hand := (hand p)\<lparr>bet := amount\<rparr>, bankroll := bankroll p - amount\<rparr>)
      else (False, p))"

definition reset_hand :: "Player \<Rightarrow> Player" where
  "reset_hand p = p\<lparr>hand := clear (hand p)\<rparr>"

subsection \<open>BlackjackGame\<close>

record BlackjackGame =
  deck :: Deck
  player :: Player
  dealer_hand :: Hand
  min_bet :: int
  max_bet :: int
  game_state :: GameState
  round_result :: "RoundResult option"

definition BlackjackGame_init :: "int \<Rightarrow> int \<Rightarrow> int \<Rightarrow> rng \<Rightarrow> BlackjackGame" where
  "BlackjackGame_init n lo hi t =
     \<lparr>deck = Deck_init n t, player = Player_init ''Player'' 1000, dealer_hand = Hand_init,
      min_bet = lo, max_bet = hi, game_state = BETTING, round_result = None\<rparr>"

text \<open>
  \<^verbatim>\<open>self.player.hand.add_card(self.deck.draw())\<close> and the same for the dealer's
  hand: the draw is evaluated first, so a draw that raises leaves the hand as it was and
  the shoe as the failed draw left it.
\<close>

definition deal_player :: "BlackjackGame \<Rightarrow> unit outcome \<times> BlackjackGame" where
  "deal_player g =
     (case draw (deck g) of
        (Raises e, d) \<Rightarrow> (Raises e, g\<lparr>deck := d\<rparr>)
      | (Returns c, d) \<Rightarrow>
          (Returns (), g\<lparr>deck := d, player := (player g)\<lparr>hand := add_card (hand (player g)) c\<rparr>\<rparr>))"

definition deal_dealer :: "BlackjackGame \<Rightarrow> unit outcome \<times> BlackjackGame" where
  "deal_dealer g =
     (case draw (deck g) of
        (Raises e, d) \<Rightarrow> (Raises e, g\<lparr>deck := d\<rparr>)
      | (Returns c, d) \<Rightarrow> (Returns (), g\<lparr>deck := d, dealer_hand := add_card (dealer_hand g) c\<rparr>))"

text \<open>Statements in sequence: a raise skips what follows and keeps the state reached.\<close>

definition and_then ::
  "unit outcome \<times> 's \<Rightarrow> ('s \<Rightarrow> 'a outcome \<times> 's) \<Rightarrow> 'a outcome \<times> 's" where
  "and_then r f = (case r of (Raises e, s) \<Rightarrow> (Raises e, s) | (Returns u, s) \<Rightarrow> f s)"

text \<open>
  \<^verbatim>\<open>int(self.player.hand.bet * 2.5)\<close>: the product is taken in floating point
  and \<^verbatim>\<open>int\<close> truncates toward zero. The definition is the exact value, which
  the floating-point product equals for every bet below \<open>2 ^ 50\<close> in absolute value;
  for a bet that is not negative it is the floor of \<open>2.5 * bet\<close>.
\<close>

definition int_times_2_5 :: "int \<Rightarrow> int" where
  "int_times_2_5 b = (if 0 \<le> b then (5 * b) div 2 else - ((5 * (- b)) div 2))"

text \<open>\<^verbatim>\<open>self.player.bankroll += x\<close>.\<close>

definition credit :: "int \<Rightarrow> BlackjackGame \<Rightarrow> BlackjackGame" where
  "credit x g = g\<lparr>player := (player g)\<lparr>bankroll := bankroll (player g) + x\<rparr>\<rparr>"

definition handle_blackjack :: "BlackjackGame \<Rightarrow> unit outcome \<times> BlackjackGame" where
  "handle_blackjack g =
     (case Hand.cards (dealer_hand g) of
        [] \<Rightarrow> (Raises IndexError, g)
      | up # rest \<Rightarrow>
          (Returns (),
           (if card_value up \<ge> 10 then
              (if length (Hand.cards (dealer_hand g)) = 2 \<and> hand_value (dealer_hand g) = 21
               then credit (bet (hand (player g))) (g\<lparr>round_result := Some TIE\<rparr>)
               else credit (int_times_2_5 (bet (hand (player g))))
                      (g\<lparr>round_result := Some BLACKJACK\<rparr>))
            else credit (int_times_2_5 (bet (hand (player g))))
                   (g\<lparr>round_result := Some BLACKJACK\<rparr>))
           \<lparr>game_state := ROUND_OVER\<rparr>))"

definition start_round :: "BlackjackGame \<Rightarrow> unit outcome \<times> BlackjackGame" where
  "start_round g =
     and_then (and_then (and_then (and_then
       (deal_player (g\<lparr>player := reset_hand (player g), dealer_hand := clear (dealer_hand g)\<rparr>))
       deal_dealer) deal_player) deal_dealer)
       (\<lambda>g4. let g5 = g4\<lparr>game_state := PLAYER_TURN\<rparr>
             in if is_blackjack (hand (player g5)) then handle_blackjack g5 else (Returns (), g5))"

definition place_bet :: "BlackjackGame \<Rightarrow> int \<Rightarrow> bool outcome \<times> BlackjackGame" where
  "place_bet g amount =
     (if game_state g \<noteq> BETTING then (Returns False, g)
      else if amount < min_bet g \<or> amount > max_bet g then (Returns False, g)
      else (case player_place_bet (player g) amount of
              (True, p) \<Rightarrow> and_then (start_round (g\<lparr>player := p\<rparr>)) (\<lambda>g'. (Returns True, g'))
            | (False, p) \<Rightarrow> (Returns False, g\<lparr>player := p\<rparr>)))"

definition hit :: "BlackjackGame \<Rightarrow> bool outcome \<times> BlackjackGame" where
  "hit g =
     (if game_state g \<noteq> PLAYER_TURN then (Returns False, g)
      else and_then (deal_player g)
             (\<lambda>g1. (Returns True,
                     if is_busted (hand (player g1))
                     then g1\<lparr>round_result := Some BUSTED, game_state := ROUND_OVER\<rparr>
                     else g1)))"

definition determine_round_result :: "BlackjackGame \<Rightarrow> BlackjackGame" where
  "determine_round_result g =
     (let player_value = hand_value (hand (player g));
          dealer_value = hand_value (dealer_hand g)
      in (if is_busted (hand (player g)) then g\<lparr>round_result := Some BUSTED\<rparr>
          else if is_busted (dealer_hand g)
            then credit (bet (hand (player g)) * 2) (g\<lparr>round_result := Some VICTORY\<rparr>)
          else if player_value > dealer_value
            then credit (bet (hand (player g)) * 2) (g\<lparr>round_result := Some VICTORY\<rparr>)
          else if player_value < dealer_value then g\<lparr>round_result := Some LOSS\<rparr>
          else credit (bet (hand (player g))) (g\<lparr>round_result := Some TIE\<rparr>))
         \<lparr>game_state := ROUND_OVER\<rparr>)"

text \<open>
  The dealer's loop \<^verbatim>\<open>while self.dealer_hand.value < 17\<close> ends because every
  card adds at least 1 to the hard total of the hand, and the hard total never exceeds
  the value. These facts are needed to define the loop as a total function.
\<close>

lemma soften_ge: "v - 10 * int a \<le> soften v a"
proof (induction v a rule: soften.induct)
  case (1 v aces)
  show ?case
  proof (cases "v > 21 \<and> aces > 0")
    case True
    with "1.IH" have "v - 10 - 10 * int (aces - 1) \<le> soften (v - 10) (aces - 1)" by simp
    moreover from True have "soften v aces = soften (v - 10) (aces - 1)"
      by (subst soften.simps) simp
    moreover from True have "int (aces - 1) = int aces - 1" by simp
    ultimately show ?thesis by simp
  next
    case False
    then show ?thesis by (simp add: soften.simps)
  qed
qed

lemma hard_total_le_value: "hard_total (Hand.cards h) \<le> hand_value h"
  by (simp add: hard_total_def hand_value_def soften_ge)

lemma hard_rank_pos: "1 \<le> card_value (Card s r) - 10 * (if r = A then 1 else 0)"
  by (cases r) (auto simp: card_value_def)

lemma hard_card_pos: "1 \<le> card_value c - 10 * (if rank c = A then 1 else 0)"
  using hard_rank_pos[of "suit c" "rank c"] by simp

lemma hard_total_append1:
  "hard_total (cs @ [c]) = hard_total cs + (card_value c - 10 * (if rank c = A then 1 else 0))"
  by (simp add: hard_total_def raw_total_def ace_count_def)

lemma hard_total_snoc: "hard_total cs + 1 \<le> hard_total (cs @ [c])"
  using hard_card_pos[of c] by (simp only: hard_total_append1)

function dealer_loop :: "BlackjackGame \<Rightarrow> unit outcome \<times> BlackjackGame" where
  "dealer_loop g =
     (if hand_value (dealer_hand g) < 17
      then (case draw (deck g) of
              (Raises e, d) \<Rightarrow> (Raises e, g\<lparr>deck := d\<rparr>)
            | (Returns c, d) \<Rightarrow> dealer_loop (g\<lparr>deck := d, dealer_hand := add_card (dealer_hand g) c\<rparr>))
      else (Returns (), g))"
  by pat_completeness auto
termination
proof (relation "measure (\<lambda>g. nat (17 - hard_total (Hand.cards (dealer_hand g))))")
  show "wf (measure (\<lambda>g. nat (17 - hard_total (Hand.cards (dealer_hand g)))))" by simp
next
  fix g :: BlackjackGame and x :: "card outcome \<times> Deck" and oc d c
  assume lt: "hand_value (dealer_hand g) < 17"
  have "hard_total (Hand.cards (dealer_hand g)) < 17"
    using hard_total_le_value[of "dealer_hand g"] lt by linarith
  moreover have "hard_total (Hand.cards (dealer_hand g)) + 1
        \<le> hard_total (Hand.cards (add_card (dealer_hand g) c))"
    by (simp add: add_card_def hard_total_snoc)
  ultimately show "(g\<lparr>deck := d, dealer_hand := add_card (dealer_hand g) c\<rparr>, g)
        \<in> measure (\<lambda>g. nat (17 - hard_total (Hand.cards (dealer_hand g))))"
    by simp
qed

declare dealer_loop.simps [simp del]

definition dealer_play :: "BlackjackGame \<Rightarrow> unit outcome \<times> BlackjackGame" where
  "dealer_play g =
     and_then (dealer_loop (g\<lparr>game_state := DEALER_TURN\<rparr>))
       (\<lambda>g'. (Returns (), determine_round_result g'))"

definition stand :: "BlackjackGame \<Rightarrow> bool outcome \<times> BlackjackGame" where
  "stand g =
     (if game_state g \<noteq> PLAYER_TURN then (Returns False, g)
      else and_then (dealer_play g) (\<lambda>g'. (Returns True, g')))"

definition start_new_round :: "BlackjackGame \<Rightarrow> BlackjackGame" where
  "start_new_round g =
     (if game_state g \<noteq> ROUND_OVER then g
      else g\<lparr>game_state := BETTING, round_result := None\<rparr>)"

subsection \<open>The read-only snapshot\<close>

fun rank_str :: "rank \<Rightarrow> string" where
  "rank_str R2 = ''2''"
| "rank_str R3 = ''3''"
| "rank_str R4 = ''4''"
| "rank_str R5 = ''5''"
| "rank_str R6 = ''6''"
| "rank_str R7 = ''7''"
| "rank_str R8 = ''8''"
| "rank_str R9 = ''9''"
| "rank_str R10 = ''10''"
| "rank_str J = ''J''"
| "rank_str Q = ''Q''"
| "rank_str K = ''K''"
| "rank_str A = ''A''"

fun suit_str :: "suit \<Rightarrow> string" where
  "suit_str Hearts = ''Hearts''"
| "suit_str Diamonds = ''Diamonds''"
| "suit_str Clubs = ''Clubs''"
| "suit_str Spades = ''Spades''"

definition card_str :: "card \<Rightarrow> string" where
  "card_str c = rank_str (rank c) @ take 1 (suit_str (suit c))"

fun join_with :: "string \<Rightarrow> string list \<Rightarrow> string" where
  "join_with sep [] = []"
| "join_with sep [x] = x"
| "join_with sep (x # y # ys) = x @ sep @ join_with sep (y # ys)"

definition hand_str :: "Hand \<Rightarrow> string" where
  "hand_str h = join_with '' '' (map card_str (Hand.cards h))"

record GameInfo =
  info_game_state :: GameState
  info_round_result :: "RoundResult option"
  info_player_bankroll :: int
  info_player_hand :: string
  info_player_value :: int
  info_dealer_hand :: string
  info_dealer_value :: int
  info_dealer_up_card :: "string option"
  info_can_hit :: bool
  info_can_stand :: bool
  info_deck_size :: nat

definition get_game_info :: "BlackjackGame \<Rightarrow> GameInfo" where
  "get_game_info g =
     \<lparr>info_game_state = game_state g,
      info_round_result = round_result g,
      info_player_bankroll = bankroll (player g),
      info_player_hand = hand_str (hand (player g)),
      info_player_value = hand_value (hand (player g)),
      info_dealer_hand = hand_str (dealer_hand g),
      info_dealer_value = hand_value (dealer_hand g),
      info_dealer_up_card =
        (case Hand.cards (dealer_hand g) of [] \<Rightarrow> None | up # rest \<Rightarrow> Some (card_str up)),
      info_can_hit = (game_state g = PLAYER_TURN \<and> \<not> is_busted (hand (player g))),
      info_can_stand = (game_state g = PLAYER_TURN),
      info_deck_size = deck_len (deck g)\<rparr>"

subsection \<open>Sequences of public operations\<close>

text \<open>
  A caller drives an engine through its five public operations. \<open>step\<close> gives the
  state of the engine after one call, whether the call returned or raised;
  \<open>run\<close> performs a list of calls from left to right.
\<close>

datatype operation = PlaceBet int | Hit | Stand | StartNewRound | GetGameInfo

fun step :: "operation \<Rightarrow> BlackjackGame \<Rightarrow> BlackjackGame" where
  "step (PlaceBet amount) g = snd (place_bet g amount)"
| "step Hit g = snd (hit g)"
| "step Stand g = snd (stand g)"
| "step StartNewRound g = start_new_round g"
| "step GetGameInfo g = g"

fun run :: "operation list \<Rightarrow> BlackjackGame \<Rightarrow> BlackjackGame" where
  "run [] g = g"
| "run (x # xs) g = run xs (step x g)"

section \<open>Inputs and invariants of the proofs\<close>

subsection \<open>Concrete hands, shoes and engines\<close>

definition soft_hand :: Hand where
  "soft_hand = \<lparr>Hand.cards = [Card Spades A, Card Hearts A, Card Clubs R9], bet = 0\<rparr>"

definition bust_hand :: Hand where
  "bust_hand = \<lparr>Hand.cards = [Card Spades K, Card Hearts Q, Card Clubs R5], bet = 0\<rparr>"

text \<open>\<^verbatim>\<open>Deck(0)\<close>, and a shoe of one deck that has been drawn empty.\<close>

definition zero_decks :: Deck where
  "zero_decks = Deck_init 0 (tape [])"

definition spent_deck :: Deck where
  "spent_deck = \<lparr>num_decks = 1, cards = [], rnd = tape []\<rparr>"

text \<open>
  Engines as the constructor builds them, with a chosen random supply. \<open>tie_game\<close>
  and \<open>blackjack_game\<close> have one deck and bets from 10 to 500: the supply of
  \<open>tie_game\<close> puts 10 and 9 of hearts and 10 and 9 of diamonds on top of the shoe,
  the supply of \<open>blackjack_game\<close> puts the ace of spades, the 7 of hearts, the king
  of hearts and the 2 of hearts there. \<open>no_deck_game\<close> is
  \<^verbatim>\<open>BlackjackGame(num_decks=0)\<close>, and \<open>rich_table\<close> has six decks and
  bets up to 5000.
\<close>

definition tie_game :: BlackjackGame where
  "tie_game = BlackjackGame_init 1 10 500 (tape [8, 21, 7, 20])"

definition blackjack_game :: BlackjackGame where
  "blackjack_game = BlackjackGame_init 1 10 500 (tape [51, 5, 11, 0])"

definition no_deck_game :: BlackjackGame where
  "no_deck_game = BlackjackGame_init 0 10 500 (tape [])"

definition rich_table :: BlackjackGame where
  "rich_table = BlackjackGame_init 6 10 5000 (tape [])"

text \<open>
  An engine whose supply deals 10 and 9 of hearts to the player and 2 and 3 of hearts to
  the dealer, with the king and the 10 of spades next in the shoe.
\<close>

definition dealer_draws_game :: BlackjackGame where
  "dealer_draws_game = BlackjackGame_init 1 10 500 (tape [8, 0, 7, 1])"

subsection \<open>Invariants\<close>

text \<open>
  \<open>settled b g\<close>: the player's hand records a bet of 0 and the bankroll is \<open>b\<close>.
\<close>

definition settled :: "int \<Rightarrow> BlackjackGame \<Rightarrow> bool" where
  "settled b g \<longleftrightarrow> bet (hand (player g)) = 0 \<and> bankroll (player g) = b"

text \<open>
  Between calls an engine is solvent: the bankroll is not negative, and outside BETTING
  the hand records a bet of 0.
\<close>

definition solvent :: "BlackjackGame \<Rightarrow> bool" where
  "solvent g \<longleftrightarrow>
     0 \<le> bankroll (player g) \<and> (game_state g = BETTING \<or> bet (hand (player g)) = 0)"

text \<open>
  An engine is playable when its shoe has at least one deck, or else the shoe is empty
  and no round is in the player's turn. The constructor establishes this and every
  operation keeps it: without a deck the first draw of a round raises, so the state
  PLAYER_TURN is never entered.
\<close>

definition playable :: "BlackjackGame \<Rightarrow> bool" where
  "playable g \<longleftrightarrow>
     1 \<le> num_decks (deck g) \<or> (Deck.cards (deck g) = [] \<and> game_state g \<noteq> PLAYER_TURN)"

section \<open>Properties\<close>

subsection \<open>Hand value\<close>

lemma soften_steps:
  "\<exists>k\<le>a. soften v a = v - 10 * int k \<and> (\<forall>j<k. v - 10 * int j > 21)
       \<and> (k < a \<longrightarrow> soften v a \<le> 21)"
proof (induction v a rule: soften.induct)
  case (1 v aces)
  show ?case
  proof (cases "v > 21 \<and> aces > 0")
    case False
    then have "soften v aces = v" by (simp add: soften.simps)
    with False show ?thesis by (intro exI[of _ 0]) auto
  next
    case True
    from "1.IH"[OF True] obtain k where k: "k \<le> aces - 1"
      "soften (v - 10) (aces - 1) = v - 10 - 10 * int k"
      "\<forall>j<k. v - 10 - 10 * int j > 21"
      "k < aces - 1 \<longrightarrow> soften (v - 10) (aces - 1) \<le> 21" by blast
    from True have s: "soften v aces = soften (v - 10) (aces - 1)"
      by (subst soften.simps) simp
    have "\<forall>j<Suc k. v - 10 * int j > 21"
    proof (intro allI impI)
      fix j assume "j < Suc k"
      show "v - 10 * int j > 21"
      proof (cases j)
        case 0 with True show ?thesis by simp
      next
        case (Suc i)
        with \<open>j < Suc k\<close> have "i < k" by simp
        with k(3) have "v - 10 - 10 * int i > 21" by blast
        with Suc show ?thesis by simp
      qed
    qed
    with k True s show ?thesis
      by (intro exI[of _ "Suc k"]) auto
  qed
qed

text \<open>
  Claim C8. The value of a hand is the sum of the raw card values (ace 11, J, Q and K 10,
  a number its face value) minus 10 for each of \<open>k\<close> aces, where the softening is
  greedy: \<open>k\<close> is at most the number of aces, every smaller number of softenings
  leaves the total above 21, and the loop stops before the aces are used up only at a
  total of at most 21. Hence the value is at most 21 whenever some number of softenings
  reaches 21 or less; otherwise every ace is softened and the value is the least total
  any number of softenings can reach, which is at least 22.
\<close>

theorem hand_value_softening:
  "(\<forall>s. card_value (Card s A) = 11 \<and> card_value (Card s J) = 10 \<and> card_value (Card s Q) = 10
       \<and> card_value (Card s K) = 10 \<and> card_value (Card s R2) = 2 \<and> card_value (Card s R3) = 3
       \<and> card_value (Card s R4) = 4 \<and> card_value (Card s R5) = 5 \<and> card_value (Card s R6) = 6
       \<and> card_value (Card s R7) = 7 \<and> card_value (Card s R8) = 8 \<and> card_value (Card s R9) = 9
       \<and> card_value (Card s R10) = 10)
   \<and> raw_total (Hand.cards h) = (\<Sum>c\<leftarrow>Hand.cards h. card_value c)
   \<and> ace_count (Hand.cards h) = length (filter (\<lambda>c. rank c = A) (Hand.cards h))
   \<and> (\<exists>k\<le>ace_count (Hand.cards h).
          hand_value h = raw_total (Hand.cards h) - 10 * int k
        \<and> (\<forall>j<k. raw_total (Hand.cards h) - 10 * int j > 21)
        \<and> (k < ace_count (Hand.cards h) \<longrightarrow> hand_value h \<le> 21))
   \<and> ((\<exists>j\<le>ace_count (Hand.cards h). raw_total (Hand.cards h) - 10 * int j \<le> 21)
         \<longrightarrow> hand_value h \<le> 21)
   \<and> ((\<forall>j\<le>ace_count (Hand.cards h). raw_total (Hand.cards h) - 10 * int j > 21) \<longrightarrow>
         hand_value h = raw_total (Hand.cards h) - 10 * int (ace_count (Hand.cards h))
         \<and> 22 \<le> hand_value h
         \<and> (\<forall>j\<le>ace_count (Hand.cards h). hand_value h \<le> raw_total (Hand.cards h) - 10 * int j))"
proof -
  define raw where "raw = raw_total (Hand.cards h)"
  define aces where "aces = ace_count (Hand.cards h)"
  obtain k where k: "k \<le> aces" "hand_value h = raw - 10 * int k"
    "\<forall>j<k. raw - 10 * int j > 21" "k < aces \<longrightarrow> hand_value h \<le> 21"
    using soften_steps[of aces raw] unfolding hand_value_def raw_def aces_def by blast
  have table: "\<forall>s. card_value (Card s A) = 11 \<and> card_value (Card s J) = 10
       \<and> card_value (Card s Q) = 10
       \<and> card_value (Card s K) = 10 \<and> card_value (Card s R2) = 2 \<and> card_value (Card s R3) = 3
       \<and> card_value (Card s R4) = 4 \<and> card_value (Card s R5) = 5 \<and> card_value (Card s R6) = 6
       \<and> card_value (Card s R7) = 7 \<and> card_value (Card s R8) = 8 \<and> card_value (Card s R9) = 9
       \<and> card_value (Card s R10) = 10"
    by (simp add: card_value_def)
  have sums: "raw = (\<Sum>c\<leftarrow>Hand.cards h. card_value c)"
    "aces = length (filter (\<lambda>c. rank c = A) (Hand.cards h))"
    by (simp_all add: raw_def aces_def raw_total_def ace_count_def)
  have one: "\<exists>k\<le>aces. hand_value h = raw - 10 * int k
            \<and> (\<forall>j<k. raw - 10 * int j > 21) \<and> (k < aces \<longrightarrow> hand_value h \<le> 21)"
    using k by blast
  have two: "hand_value h \<le> 21" if "\<exists>j\<le>aces. raw - 10 * int j \<le> 21"
  proof -
    from that obtain j where j: "j \<le> aces" "raw - 10 * int j \<le> 21" by blast
    show ?thesis
    proof (cases "k < aces")
      case True with k(4) show ?thesis by blast
    next
      case False
      with k(1) have "k = aces" by simp
      with j k(2) show ?thesis by simp
    qed
  qed
  have three: "hand_value h = raw - 10 * int aces \<and> 22 \<le> hand_value h
             \<and> (\<forall>j\<le>aces. hand_value h \<le> raw - 10 * int j)"
    if all: "\<forall>j\<le>aces. raw - 10 * int j > 21"
  proof -
    from all k(1) have "raw - 10 * int k > 21" by blast
    with k(2) have gt: "hand_value h > 21" by simp
    with k(4) k(1) have "k = aces" by force
    with k(2) gt show ?thesis by auto
  qed
  from table sums one two three show ?thesis
    unfolding raw_def aces_def by blast
qed

theorem hand_value_softening_witness:
  "raw_total (Hand.cards soft_hand) = 31 \<and> ace_count (Hand.cards soft_hand) = 2
   \<and> (\<exists>j\<le>ace_count (Hand.cards soft_hand). raw_total (Hand.cards soft_hand) - 10 * int j \<le> 21)
   \<and> hand_value soft_hand = 21
   \<and> raw_total (Hand.cards bust_hand) = 25 \<and> ace_count (Hand.cards bust_hand) = 0
   \<and> hand_value bust_hand = 25"
proof -
  have r1: "raw_total (Hand.cards soft_hand) = 31" and a1: "ace_count (Hand.cards soft_hand) = 2"
    by (simp_all add: soft_hand_def raw_total_def ace_count_def card_value_def)
  have r2: "raw_total (Hand.cards bust_hand) = 25" and a2: "ace_count (Hand.cards bust_hand) = 0"
    by (simp_all add: bust_hand_def raw_total_def ace_count_def card_value_def)
  have ex: "\<exists>j\<le>ace_count (Hand.cards soft_hand). raw_total (Hand.cards soft_hand) - 10 * int j \<le> 21"
    unfolding r1 a1 by (intro exI[of _ 1]) simp
  note s = hand_value_softening[of soft_hand, unfolded r1 a1, THEN conjunct2, THEN conjunct2,
      THEN conjunct2]
  note b = hand_value_softening[of bust_hand, unfolded r2 a2, THEN conjunct2, THEN conjunct2,
      THEN conjunct2]
  from s obtain k where k: "k \<le> 2" "hand_value soft_hand = 31 - 10 * int k"
    "\<forall>j<k. (31::int) - 10 * int j > 21" by blast
  from s ex[unfolded r1 a1] have le: "hand_value soft_hand \<le> 21" by blast
  have "k \<noteq> 2" using k(3) by (auto dest: spec[of _ 1])
  moreover have "k \<noteq> 0" using le k(2) by auto
  ultimately have "k = 1" using k(1) by arith
  with k(2) have v1: "hand_value soft_hand = 21" by simp
  from b have v2: "hand_value bust_hand = 25" by simp
  from r1 a1 ex v1 r2 a2 v2 show ?thesis by blast
qed

subsection \<open>The shoe\<close>

lemma length_shuffle_from [simp]: "length (fst (shuffle_from k xs t)) = length xs"
proof (induction k arbitrary: xs t)
  case 0
  show ?case by simp
next
  case (Suc k)
  show ?case by (simp add: randbelow_def Suc.IH)
qed

lemma mset_shuffle_from: "k < length xs \<Longrightarrow> mset (fst (shuffle_from k xs t)) = mset xs"
proof (induction k arbitrary: xs t)
  case 0
  then show ?case by simp
next
  case (Suc k)
  define j where "j = t 0 mod (Suc k + 1)"
  define ys where "ys = xs[Suc k := xs ! j, j := xs ! Suc k]"
  have "j < Suc k + 1" unfolding j_def by (rule mod_less_divisor) simp
  with Suc.prems have j: "j < length xs" by linarith
  have m: "mset ys = mset xs"
    unfolding ys_def using mset_swap[OF j Suc.prems] .
  have "k < length ys" using Suc.prems by (simp add: ys_def)
  then have "mset (fst (shuffle_from k ys (\<lambda>i. t (Suc i)))) = mset ys" by (rule Suc.IH)
  moreover have "shuffle_from (Suc k) xs t = shuffle_from k ys (\<lambda>i. t (Suc i))"
    by (simp add: randbelow_def ys_def j_def)
  ultimately show ?case using m by simp
qed

lemma length_random_shuffle [simp]: "length (fst (random_shuffle xs t)) = length xs"
  by (simp add: random_shuffle_def)

lemma mset_random_shuffle: "mset (fst (random_shuffle xs t)) = mset xs"
proof (cases xs)
  case Nil
  then show ?thesis by (simp add: random_shuffle_def)
next
  case (Cons a list)
  then show ?thesis by (simp add: random_shuffle_def mset_shuffle_from)
qed

lemma length_one_deck: "length one_deck = 52"
  by (simp add: one_deck_def suits_def ranks_def)

lemma length_concat_replicate: "length (concat (replicate n xs)) = n * length xs"
  by (induction n) simp_all

lemma length_build_deck: "length (Deck.cards (build_deck d)) = 52 * nat (num_decks d)"
  by (simp add: build_deck_def length_concat_replicate length_one_deck)

lemma num_decks_build [simp]: "num_decks (build_deck d) = num_decks d"
  by (simp add: build_deck_def)

lemma num_decks_shuffle [simp]: "num_decks (shuffle d) = num_decks d"
  by (simp add: shuffle_def split: prod.splits)

lemma cards_shuffle: "Deck.cards (shuffle d) = fst (random_shuffle (Deck.cards d) (rnd d))"
  by (simp add: shuffle_def split: prod.splits)

lemma length_cards_shuffle [simp]: "length (Deck.cards (shuffle d)) = length (Deck.cards d)"
  by (simp add: cards_shuffle)

lemma mset_cards_shuffle: "mset (Deck.cards (shuffle d)) = mset (Deck.cards d)"
  by (simp add: cards_shuffle mset_random_shuffle)

lemma draw_nonempty:
  "Deck.cards d \<noteq> [] \<Longrightarrow>
   draw d = (Returns (last (Deck.cards d)), d\<lparr>Deck.cards := butlast (Deck.cards d)\<rparr>)"
  by (simp add: draw_def)

lemma rebuilt_nonempty: "1 \<le> num_decks d \<Longrightarrow> Deck.cards (shuffle (build_deck d)) \<noteq> []"
proof -
  assume "1 \<le> num_decks d"
  then have "0 < length (Deck.cards (shuffle (build_deck d)))"
    by (simp add: length_build_deck)
  then show ?thesis by blast
qed

lemma rebuilt_empty: "num_decks d \<le> 0 \<Longrightarrow> Deck.cards (shuffle (build_deck d)) = []"
proof -
  assume "num_decks d \<le> 0"
  then have "length (Deck.cards (shuffle (build_deck d))) = 0"
    by (simp add: length_build_deck)
  then show ?thesis by blast
qed

lemma draw_empty:
  "Deck.cards d = [] \<Longrightarrow> 1 \<le> num_decks d \<Longrightarrow>
   draw d = (Returns (last (Deck.cards (shuffle (build_deck d)))),
             (shuffle (build_deck d))\<lparr>Deck.cards := butlast (Deck.cards (shuffle (build_deck d)))\<rparr>)"
  using rebuilt_nonempty[of d] by (simp add: draw_def Let_def)

lemma draw_raises:
  "Deck.cards d = [] \<Longrightarrow> num_decks d \<le> 0 \<Longrightarrow> draw d = (Raises IndexError, shuffle (build_deck d))"
  using rebuilt_empty[of d] by (simp add: draw_def Let_def)

lemma num_decks_draw [simp]: "num_decks (snd (draw d)) = num_decks d"
  by (simp add: draw_def Let_def)

lemma draw_succeeds:
  assumes "1 \<le> num_decks d"
  shows "\<exists>c d'. draw d = (Returns c, d') \<and> num_decks d' = num_decks d"
proof (cases "Deck.cards d = []")
  case True
  with assms show ?thesis by (simp add: draw_empty)
next
  case False
  then show ?thesis by (simp add: draw_nonempty)
qed

text \<open>
  Claim C7 as stated fails: a shoe of zero decks is empty after every rebuild, and
  \<^verbatim>\<open>Deck(0).draw()\<close> raises \<^verbatim>\<open>IndexError\<close>.
\<close>

theorem draw_zero_decks_raises:
  "Deck.cards zero_decks = [] \<and> fst (draw zero_decks) = Raises IndexError"
  by code_simp

text \<open>
  Claim C7, amended. From a shoe that is not empty, \<open>draw\<close> returns the last card
  and removes it. From an empty shoe of at least one deck it first rebuilds all
  \<open>52 * num_decks\<close> cards and shuffles them (a permutation of the built cards), then
  returns the last card, so that \<open>52 * num_decks - 1\<close> cards remain. It raises
  \<^verbatim>\<open>IndexError\<close> exactly from an empty shoe whose number of decks is zero or
  negative.
\<close>

theorem draw_replenishes:
  "(Deck.cards d \<noteq> [] \<longrightarrow>
      draw d = (Returns (last (Deck.cards d)), d\<lparr>Deck.cards := butlast (Deck.cards d)\<rparr>))
   \<and> (Deck.cards d = [] \<and> 1 \<le> num_decks d \<longrightarrow>
        (\<exists>c d'. draw d = (Returns c, d')
           \<and> c = last (Deck.cards (shuffle (build_deck d)))
           \<and> Deck.cards d' = butlast (Deck.cards (shuffle (build_deck d)))
           \<and> mset (Deck.cards (shuffle (build_deck d))) = mset (Deck.cards (build_deck d))
           \<and> int (length (Deck.cards (build_deck d))) = 52 * num_decks d
           \<and> int (deck_len d') = 52 * num_decks d - 1))
   \<and> (Deck.cards d = [] \<and> num_decks d \<le> 0 \<longrightarrow> fst (draw d) = Raises IndexError)"
proof (intro conjI impI)
  assume "Deck.cards d \<noteq> []"
  then show "draw d = (Returns (last (Deck.cards d)), d\<lparr>Deck.cards := butlast (Deck.cards d)\<rparr>)"
    by (rule draw_nonempty)
next
  assume a: "Deck.cards d = [] \<and> 1 \<le> num_decks d"
  define s where "s = shuffle (build_deck d)"
  define d' where "d' = s\<lparr>Deck.cards := butlast (Deck.cards s)\<rparr>"
  have dr: "draw d = (Returns (last (Deck.cards s)), d')"
    unfolding s_def d'_def using a by (simp add: draw_empty)
  have len: "int (length (Deck.cards (build_deck d))) = 52 * num_decks d"
    using a by (simp add: length_build_deck)
  have ms: "mset (Deck.cards s) = mset (Deck.cards (build_deck d))"
    unfolding s_def by (rule mset_cards_shuffle)
  have "length (Deck.cards s) = length (Deck.cards (build_deck d))"
    unfolding s_def by simp
  with len a have dl: "int (deck_len d') = 52 * num_decks d - 1"
    by (simp add: deck_len_def d'_def)
  have cs: "Deck.cards d' = butlast (Deck.cards s)" by (simp add: d'_def)
  from dr cs ms len dl
  show "\<exists>c d'. draw d = (Returns c, d')
           \<and> c = last (Deck.cards (shuffle (build_deck d)))
           \<and> Deck.cards d' = butlast (Deck.cards (shuffle (build_deck d)))
           \<and> mset (Deck.cards (shuffle (build_deck d))) = mset (Deck.cards (build_deck d))
           \<and> int (length (Deck.cards (build_deck d))) = 52 * num_decks d
           \<and> int (deck_len d') = 52 * num_decks d - 1"
    unfolding s_def by blast
next
  assume "Deck.cards d = [] \<and> num_decks d \<le> 0"
  then show "fst (draw d) = Raises IndexError" by (simp add: draw_raises)
qed

theorem draw_replenishes_witness:
  "Deck.cards spent_deck = [] \<and> num_decks spent_deck = 1
   \<and> (\<exists>c d'. draw spent_deck = (Returns c, d') \<and> deck_len d' = 51)"
proof -
  have h: "Deck.cards spent_deck = []" "num_decks spent_deck = 1"
    by (simp_all add: spent_deck_def)
  then have "Deck.cards spent_deck = [] \<and> 1 \<le> num_decks spent_deck" by simp
  with draw_replenishes[of spent_deck]
  obtain c d' where "draw spent_deck = (Returns c, d')"
    "int (deck_len d') = 52 * num_decks spent_deck - 1"
    by blast
  then have "draw spent_deck = (Returns c, d') \<and> deck_len d' = 51"
    by (simp add: h)
  with h show ?thesis by blast
qed

subsection \<open>Sequencing and dealing\<close>

lemma and_then_Returns [simp]: "and_then (Returns u, s) f = f s"
  by (simp add: and_then_def)

lemma and_then_Raises [simp]: "and_then (Raises e, s) f = (Raises e, s)"
  by (simp add: and_then_def)

lemma deal_player_Returns:
  "draw (deck g) = (Returns c, d) \<Longrightarrow>
   deal_player g =
     (Returns (), g\<lparr>deck := d, player := (player g)\<lparr>hand := add_card (hand (player g)) c\<rparr>\<rparr>)"
  by (simp add: deal_player_def)

lemma deal_player_Raises:
  "draw (deck g) = (Raises e, d) \<Longrightarrow> deal_player g = (Raises e, g\<lparr>deck := d\<rparr>)"
  by (simp add: deal_player_def)

lemma deal_dealer_Returns:
  "draw (deck g) = (Returns c, d) \<Longrightarrow>
   deal_dealer g = (Returns (), g\<lparr>deck := d, dealer_hand := add_card (dealer_hand g) c\<rparr>)"
  by (simp add: deal_dealer_def)

lemma deal_dealer_Raises:
  "draw (deck g) = (Raises e, d) \<Longrightarrow> deal_dealer g = (Raises e, g\<lparr>deck := d\<rparr>)"
  by (simp add: deal_dealer_def)

subsection \<open>The wager recorded in the hand\<close>

lemma settled_and_then:
  assumes "settled b (snd r)" and "\<And>s. settled b s \<Longrightarrow> settled b (snd (f s))"
  shows "settled b (snd (and_then r f))"
proof (cases r)
  case (Pair oc s)
  with assms show ?thesis by (cases oc) simp_all
qed

lemma settled_deal_player: "settled b g \<Longrightarrow> settled b (snd (deal_player g))"
  by (cases "draw (deck g)" rule: prod.exhaust; cases "fst (draw (deck g))")
     (simp_all add: deal_player_def settled_def add_card_def)

lemma settled_deal_dealer: "settled b g \<Longrightarrow> settled b (snd (deal_dealer g))"
  by (cases "draw (deck g)" rule: prod.exhaust; cases "fst (draw (deck g))")
     (simp_all add: deal_dealer_def settled_def add_card_def)

lemma int_times_2_5_zero [simp]: "int_times_2_5 0 = 0"
  by (simp add: int_times_2_5_def)

lemma settled_handle_blackjack: "settled b g \<Longrightarrow> settled b (snd (handle_blackjack g))"
  by (cases "Hand.cards (dealer_hand g)")
     (simp_all add: handle_blackjack_def settled_def credit_def)

lemma settled_start_round:
  assumes "bankroll (player g) = b"
  shows "settled b (snd (start_round g))"
proof -
  let ?g0 = "g\<lparr>player := reset_hand (player g), dealer_hand := clear (dealer_hand g)\<rparr>"
  have s0: "settled b ?g0"
    using assms by (simp add: settled_def reset_hand_def clear_def)
  have fin: "settled b (snd (let g5 = s\<lparr>game_state := PLAYER_TURN\<rparr>
             in if is_blackjack (hand (player g5)) then handle_blackjack g5 else (Returns (), g5)))"
    if "settled b s" for s
  proof -
    from that have "settled b (s\<lparr>game_state := PLAYER_TURN\<rparr>)" by (simp add: settled_def)
    then show ?thesis by (simp add: Let_def settled_handle_blackjack)
  qed
  show ?thesis
    unfolding start_round_def
    by (intro settled_and_then settled_deal_player settled_deal_dealer s0 fin)
qed

lemma settled_dealer_loop: "settled b g \<Longrightarrow> settled b (snd (dealer_loop g))"
proof (induction g rule: dealer_loop.induct)
  case (1 g)
  show ?case
  proof (cases "hand_value (dealer_hand g) < 17")
    case False
    with "1.prems" show ?thesis by (simp add: dealer_loop.simps)
  next
    case True
    obtain oc d where dr: "draw (deck g) = (oc, d)" by (cases "draw (deck g)")
    show ?thesis
    proof (cases oc)
      case (Raises e)
      with True dr "1.prems" show ?thesis
        by (subst dealer_loop.simps) (simp add: settled_def)
    next
      case (Returns c)
      have "settled b (g\<lparr>deck := d, dealer_hand := add_card (dealer_hand g) c\<rparr>)"
        using "1.prems" by (simp add: settled_def)
      from "1.IH"[OF True dr[symmetric] Returns this] True dr Returns show ?thesis
        by (subst dealer_loop.simps) simp
    qed
  qed
qed

lemma settled_determine: "settled b g \<Longrightarrow> settled b (determine_round_result g)"
  by (simp add: determine_round_result_def settled_def credit_def Let_def)

lemma settled_stand: "settled b g \<Longrightarrow> settled b (snd (stand g))"
proof -
  assume s: "settled b g"
  then have "settled b (g\<lparr>game_state := DEALER_TURN\<rparr>)" by (simp add: settled_def)
  then have "settled b (snd (dealer_loop (g\<lparr>game_state := DEALER_TURN\<rparr>)))"
    by (rule settled_dealer_loop)
  then have "settled b (snd (dealer_play g))"
    unfolding dealer_play_def by (rule settled_and_then) (simp add: settled_determine)
  then have "settled b (snd (and_then (dealer_play g) (\<lambda>g'. (Returns True, g'))))"
    by (rule settled_and_then) simp
  with s show ?thesis by (simp add: stand_def)
qed

lemma settled_hit: "settled b g \<Longrightarrow> settled b (snd (hit g))"
proof -
  assume s: "settled b g"
  have "settled b (snd (and_then (deal_player g)
             (\<lambda>g1. (Returns True,
                     if is_busted (hand (player g1))
                     then g1\<lparr>round_result := Some BUSTED, game_state := ROUND_OVER\<rparr>
                     else g1))))"
    by (rule settled_and_then[OF settled_deal_player[OF s]]) (simp add: settled_def)
  with s show ?thesis by (simp add: hit_def)
qed

lemma place_bet_accepted:
  assumes "game_state g = BETTING" "min_bet g \<le> amount" "amount \<le> max_bet g"
    "amount \<le> bankroll (player g)"
  shows "place_bet g amount =
     and_then (start_round (g\<lparr>player := (player g)\<lparr>hand := (hand (player g))\<lparr>bet := amount\<rparr>,
                  bankroll := bankroll (player g) - amount\<rparr>\<rparr>)) (\<lambda>g'. (Returns True, g'))"
  using assms by (simp add: place_bet_def player_place_bet_def)

lemma place_bet_rejected:
  assumes "game_state g \<noteq> BETTING \<or> amount < min_bet g \<or> amount > max_bet g
    \<or> amount > bankroll (player g)"
  shows "place_bet g amount = (Returns False, g)"
  using assms by (auto simp add: place_bet_def player_place_bet_def)

lemma settled_place_bet:
  assumes "game_state g = BETTING" "min_bet g \<le> amount" "amount \<le> max_bet g"
    "amount \<le> bankroll (player g)"
  shows "settled (bankroll (player g) - amount) (snd (place_bet g amount))"
  unfolding place_bet_accepted[OF assms]
  by (rule settled_and_then) (simp_all add: settled_start_round)

subsection \<open>Placing a bet\<close>

text \<open>
  Claim C5. A bet is rejected atomically: when the state is not BETTING, or the amount
  is below \<open>min_bet\<close> or above \<open>max_bet\<close>, or the amount exceeds the bankroll,
  \<open>place_bet\<close> returns false and the whole engine (bankroll, both hands, shoe, state
  and result) is exactly as before.
\<close>

theorem place_bet_rejection_atomic:
  "game_state g \<noteq> BETTING \<or> amount < min_bet g \<or> amount > max_bet g
     \<or> amount > bankroll (player g)
   \<Longrightarrow> place_bet g amount = (Returns False, g)"
  by (rule place_bet_rejected)

theorem place_bet_rejection_atomic_witness:
  "game_state (rich_table\<lparr>game_state := ROUND_OVER\<rparr>) = ROUND_OVER
   \<and> place_bet (rich_table\<lparr>game_state := ROUND_OVER\<rparr>) 100
       = (Returns False, rich_table\<lparr>game_state := ROUND_OVER\<rparr>)
   \<and> game_state rich_table = BETTING \<and> min_bet rich_table = 10 \<and> max_bet rich_table = 5000
   \<and> bankroll (player rich_table) = 1000
   \<and> place_bet rich_table 5 = (Returns False, rich_table)
   \<and> place_bet rich_table 5001 = (Returns False, rich_table)
   \<and> place_bet rich_table 2000 = (Returns False, rich_table)"
proof -
  have f: "game_state rich_table = BETTING" "min_bet rich_table = 10"
    "max_bet rich_table = 5000" "bankroll (player rich_table) = 1000"
    by (simp_all add: rich_table_def BlackjackGame_init_def Player_init_def)
  have a: "place_bet (rich_table\<lparr>game_state := ROUND_OVER\<rparr>) 100
       = (Returns False, rich_table\<lparr>game_state := ROUND_OVER\<rparr>)"
    by (rule place_bet_rejection_atomic) simp
  have b: "place_bet rich_table 5 = (Returns False, rich_table)"
    by (rule place_bet_rejection_atomic) (simp add: f)
  have c: "place_bet rich_table 5001 = (Returns False, rich_table)"
    by (rule place_bet_rejection_atomic) (simp add: f)
  have d: "place_bet rich_table 2000 = (Returns False, rich_table)"
    by (rule place_bet_rejection_atomic) (simp add: f)
  from f a b c d show ?thesis by simp
qed

text \<open>
  Claim C3. \<^verbatim>\<open>Player.place_bet\<close> records the wager in the hand, and
  \<open>start_round\<close> then clears the hand, so after every call of \<open>place_bet\<close> that
  returns true the hand's bet is 0 and the bankroll is the old bankroll minus the amount,
  also when the round was settled at once as a blackjack. The bet stays 0 through
  \<open>hit\<close> and \<open>stand\<close>, and neither changes the bankroll: every settlement
  credits 0.
\<close>

theorem bet_cleared_by_start_round:
  "(amount \<le> bankroll p \<longrightarrow> bet (hand (snd (player_place_bet p amount))) = amount)
   \<and> bet (hand (player (snd (start_round g)))) = 0
   \<and> (place_bet g amount = (Returns True, g') \<longrightarrow>
        bet (hand (player g')) = 0 \<and> bankroll (player g') = bankroll (player g) - amount)
   \<and> (bet (hand (player g)) = 0 \<longrightarrow>
        bet (hand (player (snd (hit g)))) = 0
        \<and> bankroll (player (snd (hit g))) = bankroll (player g))
   \<and> (bet (hand (player g)) = 0 \<longrightarrow>
        bet (hand (player (snd (stand g)))) = 0
        \<and> bankroll (player (snd (stand g))) = bankroll (player g))"
proof (intro conjI impI)
  assume "amount \<le> bankroll p"
  then show "bet (hand (snd (player_place_bet p amount))) = amount"
    by (simp add: player_place_bet_def)
next
  show "bet (hand (player (snd (start_round g)))) = 0"
    using settled_start_round[OF refl, of g] by (simp add: settled_def)
next
  assume r: "place_bet g amount = (Returns True, g')"
  have acc: "game_state g = BETTING \<and> min_bet g \<le> amount \<and> amount \<le> max_bet g
      \<and> amount \<le> bankroll (player g)"
  proof (rule ccontr)
    assume "\<not> ?thesis"
    then have "game_state g \<noteq> BETTING \<or> amount < min_bet g \<or> amount > max_bet g
      \<or> amount > bankroll (player g)" by auto
    then have "place_bet g amount = (Returns False, g)" by (rule place_bet_rejected)
    with r show False by simp
  qed
  then have "settled (bankroll (player g) - amount) (snd (place_bet g amount))"
    by (intro settled_place_bet) simp_all
  with r have s: "settled (bankroll (player g) - amount) g'" by simp
  from s show "bet (hand (player g')) = 0" by (simp add: settled_def)
  from s show "bankroll (player g') = bankroll (player g) - amount" by (simp add: settled_def)
next
  assume "bet (hand (player g)) = 0"
  then have "settled (bankroll (player g)) g" by (simp add: settled_def)
  then have s: "settled (bankroll (player g)) (snd (hit g))" by (rule settled_hit)
  from s show "bet (hand (player (snd (hit g)))) = 0" by (simp add: settled_def)
  from s show "bankroll (player (snd (hit g))) = bankroll (player g)" by (simp add: settled_def)
next
  assume "bet (hand (player g)) = 0"
  then have "settled (bankroll (player g)) g" by (simp add: settled_def)
  then have s: "settled (bankroll (player g)) (snd (stand g))" by (rule settled_stand)
  from s show "bet (hand (player (snd (stand g)))) = 0" by (simp add: settled_def)
  from s show "bankroll (player (snd (stand g))) = bankroll (player g)" by (simp add: settled_def)
qed

theorem bet_cleared_by_start_round_witness:
  "fst (place_bet tie_game 100) = Returns True
   \<and> bankroll (player tie_game) = 1000
   \<and> bet (hand (player (snd (place_bet tie_game 100)))) = 0
   \<and> bankroll (player (snd (place_bet tie_game 100))) = 900
   \<and> bankroll (player (snd (stand (snd (place_bet tie_game 100))))) = 900
   \<and> bankroll (player (snd (hit (snd (place_bet tie_game 100))))) = 900"
proof -
  define g' where "g' = snd (place_bet tie_game 100)"
  have t: "fst (place_bet tie_game 100) = Returns True" by code_simp
  then have r: "place_bet tie_game 100 = (Returns True, g')"
    unfolding g'_def by (simp add: prod_eq_iff)
  have b: "bankroll (player tie_game) = 1000"
    by (simp add: tie_game_def BlackjackGame_init_def Player_init_def)
  note th = bet_cleared_by_start_round[of 100 "player tie_game" tie_game g' ]
  from th r b have z: "bet (hand (player g')) = 0" and k: "bankroll (player g') = 900"
    by simp_all
  from bet_cleared_by_start_round[of 100 "player tie_game" g' g'] z k
  have "bankroll (player (snd (stand g'))) = 900" "bankroll (player (snd (hit g'))) = 900"
    by simp_all
  with t b z k show ?thesis unfolding g'_def by simp
qed

subsection \<open>The bankroll over whole sessions\<close>

lemma solvent_settled: "settled b g \<Longrightarrow> 0 \<le> b \<Longrightarrow> solvent g"
  by (simp add: solvent_def settled_def)

lemma solvent_place_bet: "solvent g \<Longrightarrow> solvent (snd (place_bet g amount))"
proof -
  assume s: "solvent g"
  show ?thesis
  proof (cases "game_state g = BETTING \<and> min_bet g \<le> amount \<and> amount \<le> max_bet g
      \<and> amount \<le> bankroll (player g)")
    case True
    then have "settled (bankroll (player g) - amount) (snd (place_bet g amount))"
      by (intro settled_place_bet) simp_all
    moreover from True have "0 \<le> bankroll (player g) - amount" by simp
    ultimately show ?thesis by (rule solvent_settled)
  next
    case False
    then have "game_state g \<noteq> BETTING \<or> amount < min_bet g \<or> amount > max_bet g
      \<or> amount > bankroll (player g)" by auto
    then have "place_bet g amount = (Returns False, g)" by (rule place_bet_rejected)
    with s show ?thesis by simp
  qed
qed

lemma hit_rejected: "game_state g \<noteq> PLAYER_TURN \<Longrightarrow> hit g = (Returns False, g)"
  by (simp add: hit_def)

lemma stand_rejected: "game_state g \<noteq> PLAYER_TURN \<Longrightarrow> stand g = (Returns False, g)"
  by (simp add: stand_def)

lemma solvent_hit: "solvent g \<Longrightarrow> solvent (snd (hit g))"
proof -
  assume s: "solvent g"
  show ?thesis
  proof (cases "game_state g = PLAYER_TURN")
    case True
    with s have "settled (bankroll (player g)) g" by (simp add: solvent_def settled_def)
    then have "settled (bankroll (player g)) (snd (hit g))" by (rule settled_hit)
    moreover from s have "0 \<le> bankroll (player g)" by (simp add: solvent_def)
    ultimately show ?thesis by (rule solvent_settled)
  next
    case False
    with s show ?thesis by (simp add: hit_rejected)
  qed
qed

lemma solvent_stand: "solvent g \<Longrightarrow> solvent (snd (stand g))"
proof -
  assume s: "solvent g"
  show ?thesis
  proof (cases "game_state g = PLAYER_TURN")
    case True
    with s have "settled (bankroll (player g)) g" by (simp add: solvent_def settled_def)
    then have "settled (bankroll (player g)) (snd (stand g))" by (rule settled_stand)
    moreover from s have "0 \<le> bankroll (player g)" by (simp add: solvent_def)
    ultimately show ?thesis by (rule solvent_settled)
  next
    case False
    with s show ?thesis by (simp add: stand_rejected)
  qed
qed

lemma solvent_start_new_round: "solvent g \<Longrightarrow> solvent (start_new_round g)"
  by (simp add: solvent_def start_new_round_def)

lemma solvent_step: "solvent g \<Longrightarrow> solvent (step x g)"
  by (cases x)
     (simp_all add: solvent_place_bet solvent_hit solvent_stand solvent_start_new_round)

lemma solvent_run: "solvent g \<Longrightarrow> solvent (run xs g)"
  by (induction xs arbitrary: g) (simp_all add: solvent_step)

text \<open>
  Claim C6. Take an engine that awaits a bet (state BETTING, as after construction or
  between rounds) with a bankroll that is not negative and a \<open>min_bet\<close> that is not
  negative. After every sequence of calls of \<open>place_bet\<close>, \<open>hit\<close>,
  \<open>stand\<close>, \<open>start_new_round\<close> and \<open>get_game_info\<close>, whether they
  return or raise, the bankroll is still not negative: a wager is deducted only when it
  is at most the bankroll, and a settlement never subtracts. (The proof does not need the
  hypothesis on \<open>min_bet\<close>.)
\<close>

theorem bankroll_never_negative:
  "game_state g = BETTING \<Longrightarrow> 0 \<le> bankroll (player g) \<Longrightarrow> 0 \<le> min_bet g
   \<Longrightarrow> 0 \<le> bankroll (player (run xs g))"
proof -
  assume "game_state g = BETTING" "0 \<le> bankroll (player g)"
  then have "solvent g" by (simp add: solvent_def)
  then have "solvent (run xs g)" by (rule solvent_run)
  then show ?thesis by (simp add: solvent_def)
qed

theorem bankroll_never_negative_witness:
  "game_state tie_game = BETTING \<and> bankroll (player tie_game) = 1000 \<and> min_bet tie_game = 10
   \<and> bankroll (player (run [PlaceBet 100, GetGameInfo, Stand, StartNewRound, PlaceBet 500, Hit]
        tie_game)) = 400
   \<and> 0 \<le> bankroll (player (run [PlaceBet 100, GetGameInfo, Stand, StartNewRound, PlaceBet 500,
        Hit] tie_game))"
proof -
  have f: "game_state tie_game = BETTING" "bankroll (player tie_game) = 1000"
    "min_bet tie_game = 10"
    by (simp_all add: tie_game_def BlackjackGame_init_def Player_init_def)
  have v: "bankroll (player (run [PlaceBet 100, GetGameInfo, Stand, StartNewRound, PlaceBet 500,
        Hit] tie_game)) = 400"
    by code_simp
  have "0 \<le> bankroll (player (run [PlaceBet 100, GetGameInfo, Stand, StartNewRound,
        PlaceBet 500, Hit] tie_game))"
    by (rule bankroll_never_negative) (simp_all add: f)
  with f v show ?thesis by simp
qed

subsection \<open>Dealing a round\<close>

lemma and_then_preserves:
  assumes "P (snd r)" and "\<And>s. P s \<Longrightarrow> P (snd (f s))"
  shows "P (snd (and_then r f))"
proof (cases r)
  case (Pair oc s)
  with assms show ?thesis by (cases oc) simp_all
qed

lemma start_round_dealt:
  assumes "draw (deck g) = (Returns c1, d1)" "draw d1 = (Returns c2, d2)"
    "draw d2 = (Returns c3, d3)" "draw d3 = (Returns c4, d4)"
  shows "start_round g =
     (let g5 = g\<lparr>player := (player g)\<lparr>hand := (hand (player g))\<lparr>bet := 0, Hand.cards := [c1, c3]\<rparr>\<rparr>,
                  deck := d4,
                  dealer_hand := (dealer_hand g)\<lparr>bet := 0, Hand.cards := [c2, c4]\<rparr>,
                  game_state := PLAYER_TURN\<rparr>
      in if is_blackjack (hand (player g5)) then handle_blackjack g5 else (Returns (), g5))"
  using assms
  by (simp add: start_round_def deal_player_def deal_dealer_def reset_hand_def clear_def
      add_card_def Let_def)

lemma four_draws:
  assumes "1 \<le> num_decks d"
  shows "\<exists>c1 d1 c2 d2 c3 d3 c4 d4.
     draw d = (Returns c1, d1) \<and> draw d1 = (Returns c2, d2)
     \<and> draw d2 = (Returns c3, d3) \<and> draw d3 = (Returns c4, d4)"
proof -
  from draw_succeeds[OF assms] obtain c1 d1
    where 1: "draw d = (Returns c1, d1)" "num_decks d1 = num_decks d" by blast
  with assms have "1 \<le> num_decks d1" by simp
  from draw_succeeds[OF this] obtain c2 d2
    where 2: "draw d1 = (Returns c2, d2)" "num_decks d2 = num_decks d1" by blast
  with \<open>1 \<le> num_decks d1\<close> have "1 \<le> num_decks d2" by simp
  from draw_succeeds[OF this] obtain c3 d3
    where 3: "draw d2 = (Returns c3, d3)" "num_decks d3 = num_decks d2" by blast
  with \<open>1 \<le> num_decks d2\<close> have "1 \<le> num_decks d3" by simp
  from draw_succeeds[OF this] obtain c4 d4
    where 4: "draw d3 = (Returns c4, d4)" by blast
  from 1(1) 2(1) 3(1) 4 show ?thesis by blast
qed

lemma handle_blackjack_dealt:
  assumes "Hand.cards (dealer_hand g) = [c2, c4]"
  shows "fst (handle_blackjack g) = Returns ()"
    and "game_state (snd (handle_blackjack g)) = ROUND_OVER"
    and "round_result (snd (handle_blackjack g)) = Some TIE
         \<or> round_result (snd (handle_blackjack g)) = Some BLACKJACK"
    and "deck (snd (handle_blackjack g)) = deck g"
    and "hand (player (snd (handle_blackjack g))) = hand (player g)"
    and "dealer_hand (snd (handle_blackjack g)) = dealer_hand g"
    and "min_bet (snd (handle_blackjack g)) = min_bet g"
    and "max_bet (snd (handle_blackjack g)) = max_bet g"
    and "name (player (snd (handle_blackjack g))) = name (player g)"
  using assms by (simp_all add: handle_blackjack_def credit_def)

text \<open>
  Claim C4 as stated fails: \<^verbatim>\<open>BlackjackGame(num_decks=0)\<close> is in BETTING with a
  bankroll of 1000, and a bet of 100 is within its limits, yet \<open>place_bet\<close> raises
  \<^verbatim>\<open>IndexError\<close> at the first draw; no card is dealt and the state stays BETTING.
\<close>

theorem place_bet_without_decks_raises:
  "game_state no_deck_game = BETTING \<and> min_bet no_deck_game \<le> 100
   \<and> 100 \<le> max_bet no_deck_game \<and> 100 \<le> bankroll (player no_deck_game)
   \<and> fst (place_bet no_deck_game 100) = Raises IndexError
   \<and> game_state (snd (place_bet no_deck_game 100)) = BETTING
   \<and> Hand.cards (hand (player (snd (place_bet no_deck_game 100)))) = []"
  by code_simp

text \<open>
  Claim C4, amended. If the engine is in BETTING, the amount lies within
  \<open>[min_bet, max_bet]\<close> and is at most the bankroll, and the shoe has at least one
  deck, then \<open>place_bet\<close> returns true, both hands are cleared and hold exactly the
  four cards drawn in the order player, dealer, player, dealer, and the limits are
  unchanged. When the player's two cards are not a blackjack the state is PLAYER_TURN,
  the result is untouched and the bankroll is the old bankroll minus the amount; when
  they are a blackjack the round is settled at once and the state is ROUND_OVER with
  result TIE or BLACKJACK.
\<close>

theorem place_bet_deals_round:
  assumes "game_state g = BETTING" and "min_bet g \<le> amount" and "amount \<le> max_bet g"
    and "amount \<le> bankroll (player g)" and "1 \<le> num_decks (deck g)"
  shows "\<exists>c1 d1 c2 d2 c3 d3 c4 d4 g'.
      draw (deck g) = (Returns c1, d1) \<and> draw d1 = (Returns c2, d2)
    \<and> draw d2 = (Returns c3, d3) \<and> draw d3 = (Returns c4, d4)
    \<and> place_bet g amount = (Returns True, g')
    \<and> deck g' = d4
    \<and> Hand.cards (hand (player g')) = [c1, c3]
    \<and> Hand.cards (dealer_hand g') = [c2, c4]
    \<and> min_bet g' = min_bet g \<and> max_bet g' = max_bet g \<and> name (player g') = name (player g)
    \<and> (if is_blackjack (hand (player g'))
        then game_state g' = ROUND_OVER
           \<and> (round_result g' = Some TIE \<or> round_result g' = Some BLACKJACK)
        else game_state g' = PLAYER_TURN \<and> round_result g' = round_result g
           \<and> bankroll (player g') = bankroll (player g) - amount)"
proof -
  define g0 where "g0 = g\<lparr>player := (player g)\<lparr>hand := (hand (player g))\<lparr>bet := amount\<rparr>,
                  bankroll := bankroll (player g) - amount\<rparr>\<rparr>"
  have pb: "place_bet g amount = and_then (start_round g0) (\<lambda>g'. (Returns True, g'))"
    unfolding g0_def using assms(1-4) by (rule place_bet_accepted)
  from assms(5) have "1 \<le> num_decks (deck g0)" by (simp add: g0_def)
  from four_draws[OF this] obtain c1 d1 c2 d2 c3 d3 c4 d4 where
    dr: "draw (deck g0) = (Returns c1, d1)" "draw d1 = (Returns c2, d2)"
      "draw d2 = (Returns c3, d3)" "draw d3 = (Returns c4, d4)" by blast
  define g5 where "g5 = g0\<lparr>player := (player g0)\<lparr>hand := (hand (player g0))\<lparr>bet := 0, Hand.cards := [c1, c3]\<rparr>\<rparr>,
                  deck := d4,
                  dealer_hand := (dealer_hand g0)\<lparr>bet := 0, Hand.cards := [c2, c4]\<rparr>,
                  game_state := PLAYER_TURN\<rparr>"
  have sr: "start_round g0 =
      (if is_blackjack (hand (player g5)) then handle_blackjack g5 else (Returns (), g5))"
    using start_round_dealt[OF dr] by (simp add: g5_def Let_def)
  have dk: "deck g0 = deck g" by (simp add: g0_def)
  have g5f: "deck g5 = d4" "Hand.cards (hand (player g5)) = [c1, c3]"
    "Hand.cards (dealer_hand g5) = [c2, c4]" "min_bet g5 = min_bet g" "max_bet g5 = max_bet g"
    "name (player g5) = name (player g)" "game_state g5 = PLAYER_TURN"
    "round_result g5 = round_result g" "bankroll (player g5) = bankroll (player g) - amount"
    by (simp_all add: g5_def g0_def)
  show ?thesis
  proof (cases "is_blackjack (hand (player g5))")
    case False
    with sr pb have r: "place_bet g amount = (Returns True, g5)" by simp
    from False g5f dr[unfolded dk] r show ?thesis by (intro exI[of _ c1] exI[of _ d1]
        exI[of _ c2] exI[of _ d2] exI[of _ c3] exI[of _ d3] exI[of _ c4] exI[of _ d4]
        exI[of _ g5]) simp
  next
    case True
    define g6 where "g6 = snd (handle_blackjack g5)"
    note hb = handle_blackjack_dealt[OF g5f(3), folded g6_def]
    from hb(1) have "handle_blackjack g5 = (Returns (), g6)"
      by (simp add: g6_def prod_eq_iff)
    with True sr pb have r: "place_bet g amount = (Returns True, g6)" by simp
    from hb(5) True have bj: "is_blackjack (hand (player g6))" by simp
    from bj hb g5f dr[unfolded dk] r show ?thesis by (intro exI[of _ c1] exI[of _ d1]
        exI[of _ c2] exI[of _ d2] exI[of _ c3] exI[of _ d3] exI[of _ c4] exI[of _ d4]
        exI[of _ g6]) simp
  qed
qed

theorem place_bet_deals_round_witness:
  "game_state tie_game = BETTING \<and> min_bet tie_game \<le> 100 \<and> 100 \<le> max_bet tie_game
   \<and> 100 \<le> bankroll (player tie_game) \<and> 1 \<le> num_decks (deck tie_game)
   \<and> bankroll (player tie_game) = 1000
   \<and> (\<exists>g'. place_bet tie_game 100 = (Returns True, g')
          \<and> length (Hand.cards (hand (player g'))) = 2
          \<and> length (Hand.cards (dealer_hand g')) = 2)
   \<and> game_state (snd (place_bet tie_game 100)) = PLAYER_TURN
   \<and> bankroll (player (snd (place_bet tie_game 100))) = 900
   \<and> Hand.cards (hand (player (snd (place_bet tie_game 100)))) = [Card Hearts R10, Card Hearts R9]
   \<and> Hand.cards (dealer_hand (snd (place_bet tie_game 100)))
       = [Card Diamonds R10, Card Diamonds R9]
   \<and> game_state (snd (place_bet blackjack_game 100)) = ROUND_OVER"
proof -
  have f: "game_state tie_game = BETTING" "min_bet tie_game \<le> 100" "100 \<le> max_bet tie_game"
    "100 \<le> bankroll (player tie_game)" "1 \<le> num_decks (deck tie_game)"
    "bankroll (player tie_game) = 1000"
    by (simp_all add: tie_game_def BlackjackGame_init_def Player_init_def Deck_init_def)
  from place_bet_deals_round[OF f(1-5)]
  have e: "\<exists>g'. place_bet tie_game 100 = (Returns True, g')
          \<and> length (Hand.cards (hand (player g'))) = 2
          \<and> length (Hand.cards (dealer_hand g')) = 2"
    by force
  have v: "game_state (snd (place_bet tie_game 100)) = PLAYER_TURN
   \<and> bankroll (player (snd (place_bet tie_game 100))) = 900
   \<and> Hand.cards (hand (player (snd (place_bet tie_game 100)))) = [Card Hearts R10, Card Hearts R9]
   \<and> Hand.cards (dealer_hand (snd (place_bet tie_game 100)))
       = [Card Diamonds R10, Card Diamonds R9]
   \<and> game_state (snd (place_bet blackjack_game 100)) = ROUND_OVER"
    by code_simp
  from f e v show ?thesis by blast
qed

subsection \<open>Engines driven through their public operations\<close>

text \<open>
  The number of decks of the shoe never changes.
\<close>

lemma decks_and_then:
  assumes "num_decks (deck (snd r)) = n"
    and "\<And>s. num_decks (deck s) = n \<Longrightarrow> num_decks (deck (snd (f s))) = n"
  shows "num_decks (deck (snd (and_then r f))) = n"
  using assms by (rule and_then_preserves[where P = "\<lambda>s. num_decks (deck s) = n"])

lemma decks_deal_player [simp]:
  "num_decks (deck (snd (deal_player g))) = num_decks (deck g)"
proof -
  obtain oc d where dr: "draw (deck g) = (oc, d)" by (cases "draw (deck g)")
  then have "num_decks d = num_decks (deck g)" using num_decks_draw[of "deck g"] by simp
  with dr show ?thesis by (cases oc) (simp_all add: deal_player_def)
qed

lemma decks_deal_dealer [simp]:
  "num_decks (deck (snd (deal_dealer g))) = num_decks (deck g)"
proof -
  obtain oc d where dr: "draw (deck g) = (oc, d)" by (cases "draw (deck g)")
  then have "num_decks d = num_decks (deck g)" using num_decks_draw[of "deck g"] by simp
  with dr show ?thesis by (cases oc) (simp_all add: deal_dealer_def)
qed

lemma decks_handle_blackjack [simp]:
  "num_decks (deck (snd (handle_blackjack g))) = num_decks (deck g)"
  by (cases "Hand.cards (dealer_hand g)") (simp_all add: handle_blackjack_def credit_def)

lemma decks_start_round [simp]:
  "num_decks (deck (snd (start_round g))) = num_decks (deck g)"
proof -
  define n where "n = num_decks (deck g)"
  have "num_decks (deck (snd (start_round g))) = n"
    unfolding start_round_def
    by (intro decks_and_then) (simp_all add: n_def Let_def)
  then show ?thesis by (simp add: n_def)
qed

lemma decks_dealer_loop [simp]:
  "num_decks (deck (snd (dealer_loop g))) = num_decks (deck g)"
proof (induction g rule: dealer_loop.induct)
  case (1 g)
  show ?case
  proof (cases "hand_value (dealer_hand g) < 17")
    case False
    then show ?thesis by (simp add: dealer_loop.simps)
  next
    case True
    obtain oc d where dr: "draw (deck g) = (oc, d)" by (cases "draw (deck g)")
    then have nd: "num_decks d = num_decks (deck g)"
      using num_decks_draw[of "deck g"] by simp
    show ?thesis
    proof (cases oc)
      case (Raises e)
      with True dr nd show ?thesis by (subst dealer_loop.simps) simp
    next
      case (Returns c)
      from "1.IH"[OF True dr[symmetric] Returns] True dr Returns nd show ?thesis
        by (subst dealer_loop.simps) simp
    qed
  qed
qed

lemma decks_determine [simp]:
  "deck (determine_round_result g) = deck g"
  by (simp add: determine_round_result_def credit_def Let_def)

lemma decks_stand [simp]: "num_decks (deck (snd (stand g))) = num_decks (deck g)"
proof -
  define n where "n = num_decks (deck g)"
  have "num_decks (deck (snd (and_then (dealer_play g) (\<lambda>g'. (Returns True, g'))))) = n"
    unfolding dealer_play_def
    by (intro decks_and_then) (simp_all add: n_def)
  then show ?thesis by (simp add: stand_def n_def)
qed

lemma decks_hit [simp]: "num_decks (deck (snd (hit g))) = num_decks (deck g)"
proof -
  define n where "n = num_decks (deck g)"
  have "num_decks (deck (snd (and_then (deal_player g)
             (\<lambda>g1. (Returns True,
                     if is_busted (hand (player g1))
                     then g1\<lparr>round_result := Some BUSTED, game_state := ROUND_OVER\<rparr>
                     else g1))))) = n"
    by (intro decks_and_then) (simp_all add: n_def)
  then show ?thesis by (simp add: hit_def n_def)
qed

lemma decks_place_bet [simp]:
  "num_decks (deck (snd (place_bet g amount))) = num_decks (deck g)"
proof (cases "game_state g = BETTING \<and> min_bet g \<le> amount \<and> amount \<le> max_bet g
      \<and> amount \<le> bankroll (player g)")
  case True
  define n where "n = num_decks (deck g)"
  from True have pb: "place_bet g amount =
     and_then (start_round (g\<lparr>player := (player g)\<lparr>hand := (hand (player g))\<lparr>bet := amount\<rparr>,
                  bankroll := bankroll (player g) - amount\<rparr>\<rparr>)) (\<lambda>g'. (Returns True, g'))"
    by (intro place_bet_accepted) simp_all
  have "num_decks (deck (snd (place_bet g amount))) = n"
    unfolding pb by (intro decks_and_then) (simp_all add: n_def)
  then show ?thesis by (simp add: n_def)
next
  case False
  then have "game_state g \<noteq> BETTING \<or> amount < min_bet g \<or> amount > max_bet g
      \<or> amount > bankroll (player g)" by auto
  then have "place_bet g amount = (Returns False, g)" by (rule place_bet_rejected)
  then show ?thesis by simp
qed

lemma playable_init: "playable (BlackjackGame_init n lo hi t)"
proof (cases "1 \<le> n")
  case True
  then show ?thesis by (simp add: playable_def BlackjackGame_init_def Deck_init_def)
next
  case False
  then have "Deck.cards (Deck_init n t) = []"
    unfolding Deck_init_def by (intro rebuilt_empty) simp
  then show ?thesis by (simp add: playable_def BlackjackGame_init_def)
qed

lemma start_round_raises:
  assumes "Deck.cards (deck g) = []" "num_decks (deck g) \<le> 0"
  shows "start_round g =
     (Raises IndexError,
      g\<lparr>player := reset_hand (player g), dealer_hand := clear (dealer_hand g),
         deck := shuffle (build_deck (deck g))\<rparr>)"
  using assms by (simp add: start_round_def deal_player_def draw_raises)

lemma playable_place_bet: "playable g \<Longrightarrow> playable (snd (place_bet g amount))"
proof -
  assume p: "playable g"
  show ?thesis
  proof (cases "1 \<le> num_decks (deck g)")
    case True
    then show ?thesis by (simp add: playable_def)
  next
    case nodeck: False
    with p have e: "Deck.cards (deck g) = []" "game_state g \<noteq> PLAYER_TURN"
      by (simp_all add: playable_def)
    show ?thesis
    proof (cases "game_state g = BETTING \<and> min_bet g \<le> amount \<and> amount \<le> max_bet g
      \<and> amount \<le> bankroll (player g)")
      case True
      define g0 where "g0 = g\<lparr>player := (player g)\<lparr>hand := (hand (player g))\<lparr>bet := amount\<rparr>,
                  bankroll := bankroll (player g) - amount\<rparr>\<rparr>"
      from True have pb: "place_bet g amount =
         and_then (start_round g0) (\<lambda>g'. (Returns True, g'))"
        unfolding g0_def by (intro place_bet_accepted) simp_all
      have "Deck.cards (deck g0) = []" "num_decks (deck g0) \<le> 0"
        using e nodeck by (simp_all add: g0_def)
      from start_round_raises[OF this] pb
      have "snd (place_bet g amount) =
          g0\<lparr>player := reset_hand (player g0), dealer_hand := clear (dealer_hand g0),
             deck := shuffle (build_deck (deck g0))\<rparr>" by simp
      moreover have "Deck.cards (shuffle (build_deck (deck g0))) = []"
        using nodeck by (intro rebuilt_empty) (simp add: g0_def)
      moreover from True have "game_state g0 = BETTING" by (simp add: g0_def)
      ultimately show ?thesis by (simp add: playable_def)
    next
      case False
      then have "game_state g \<noteq> BETTING \<or> amount < min_bet g \<or> amount > max_bet g
        \<or> amount > bankroll (player g)" by auto
      then have "place_bet g amount = (Returns False, g)" by (rule place_bet_rejected)
      with p show ?thesis by simp
    qed
  qed
qed

lemma playable_hit: "playable g \<Longrightarrow> playable (snd (hit g))"
proof -
  assume p: "playable g"
  show ?thesis
  proof (cases "game_state g = PLAYER_TURN")
    case True
    with p have "1 \<le> num_decks (deck g)" by (simp add: playable_def)
    then show ?thesis by (simp add: playable_def)
  next
    case False
    with p show ?thesis by (simp add: hit_rejected)
  qed
qed

lemma playable_stand: "playable g \<Longrightarrow> playable (snd (stand g))"
proof -
  assume p: "playable g"
  show ?thesis
  proof (cases "game_state g = PLAYER_TURN")
    case True
    with p have "1 \<le> num_decks (deck g)" by (simp add: playable_def)
    then show ?thesis by (simp add: playable_def)
  next
    case False
    with p show ?thesis by (simp add: stand_rejected)
  qed
qed

lemma playable_start_new_round: "playable g \<Longrightarrow> playable (start_new_round g)"
  by (auto simp add: playable_def start_new_round_def)

lemma playable_step: "playable g \<Longrightarrow> playable (step x g)"
  by (cases x)
     (simp_all add: playable_place_bet playable_hit playable_stand playable_start_new_round)

lemma playable_run: "playable g \<Longrightarrow> playable (run xs g)"
  by (induction xs arbitrary: g) (simp_all add: playable_step)

lemma player_turn_has_deck:
  assumes "g = run xs (BlackjackGame_init n lo hi t)" "game_state g = PLAYER_TURN"
  shows "1 \<le> num_decks (deck g)"
proof -
  have "playable g" unfolding assms(1) by (intro playable_run playable_init)
  with assms(2) show ?thesis by (simp add: playable_def)
qed

subsection \<open>Hit\<close>

lemma hit_accepted:
  assumes "game_state g = PLAYER_TURN" "draw (deck g) = (Returns c, d)"
  shows "hit g = (Returns True,
     (let g1 = g\<lparr>deck := d, player := (player g)\<lparr>hand := add_card (hand (player g)) c\<rparr>\<rparr>
      in if hand_value (hand (player g1)) > 21
         then g1\<lparr>round_result := Some BUSTED, game_state := ROUND_OVER\<rparr> else g1))"
  using assms by (simp add: hit_def deal_player_def is_busted_def Let_def)

text \<open>
  Claim C10. Let the engine be in any state that the constructor and a sequence of
  public calls can produce. Outside PLAYER_TURN \<open>hit\<close> returns false and changes
  nothing. In PLAYER_TURN the draw succeeds, exactly one card is appended to the player's
  hand, and \<open>hit\<close> returns true whether or not the hand busts: when the new value
  exceeds 21 the result is BUSTED and the state ROUND_OVER, otherwise result and state
  are untouched; the bankroll is unchanged in both cases.
\<close>

theorem hit_contract:
  assumes "g = run xs (BlackjackGame_init n lo hi t)"
  shows "(game_state g \<noteq> PLAYER_TURN \<longrightarrow> hit g = (Returns False, g))
       \<and> (game_state g = PLAYER_TURN \<longrightarrow>
           (\<exists>c d g1. draw (deck g) = (Returns c, d)
              \<and> g1 = g\<lparr>deck := d, player := (player g)\<lparr>hand := add_card (hand (player g)) c\<rparr>\<rparr>
              \<and> Hand.cards (hand (player g1)) = Hand.cards (hand (player g)) @ [c]
              \<and> bankroll (player g1) = bankroll (player g)
              \<and> hit g = (Returns True,
                   if hand_value (hand (player g1)) > 21
                   then g1\<lparr>round_result := Some BUSTED, game_state := ROUND_OVER\<rparr> else g1)))"
proof (intro conjI impI)
  assume "game_state g \<noteq> PLAYER_TURN"
  then show "hit g = (Returns False, g)" by (rule hit_rejected)
next
  assume pt: "game_state g = PLAYER_TURN"
  with assms have "1 \<le> num_decks (deck g)" by (rule player_turn_has_deck)
  from draw_succeeds[OF this] obtain c d where dr: "draw (deck g) = (Returns c, d)" by blast
  define g1 where "g1 = g\<lparr>deck := d, player := (player g)\<lparr>hand := add_card (hand (player g)) c\<rparr>\<rparr>"
  have "hit g = (Returns True,
                   if hand_value (hand (player g1)) > 21
                   then g1\<lparr>round_result := Some BUSTED, game_state := ROUND_OVER\<rparr> else g1)"
    using hit_accepted[OF pt dr] by (simp add: g1_def Let_def)
  moreover have "Hand.cards (hand (player g1)) = Hand.cards (hand (player g)) @ [c]"
    "bankroll (player g1) = bankroll (player g)"
    by (simp_all add: g1_def add_card_def)
  ultimately show "\<exists>c d g1. draw (deck g) = (Returns c, d)
              \<and> g1 = g\<lparr>deck := d, player := (player g)\<lparr>hand := add_card (hand (player g)) c\<rparr>\<rparr>
              \<and> Hand.cards (hand (player g1)) = Hand.cards (hand (player g)) @ [c]
              \<and> bankroll (player g1) = bankroll (player g)
              \<and> hit g = (Returns True,
                   if hand_value (hand (player g1)) > 21
                   then g1\<lparr>round_result := Some BUSTED, game_state := ROUND_OVER\<rparr> else g1)"
    using dr g1_def by blast
qed

theorem hit_contract_witness:
  "game_state (run [PlaceBet 100, Hit] tie_game) = PLAYER_TURN
   \<and> hand_value (hand (player (run [PlaceBet 100, Hit] tie_game))) = 21
   \<and> fst (hit (run [PlaceBet 100, Hit] tie_game)) = Returns True
   \<and> hand_value (hand (player (snd (hit (run [PlaceBet 100, Hit] tie_game))))) = 31
   \<and> round_result (snd (hit (run [PlaceBet 100, Hit] tie_game))) = Some BUSTED
   \<and> game_state (snd (hit (run [PlaceBet 100, Hit] tie_game))) = ROUND_OVER
   \<and> bankroll (player (snd (hit (run [PlaceBet 100, Hit] tie_game)))) = 900
   \<and> game_state (run [] tie_game) = BETTING
   \<and> hit (run [] tie_game) = (Returns False, run [] tie_game)"
proof -
  define g where "g = run [PlaceBet 100, Hit] tie_game"
  have g: "g = run [PlaceBet 100, Hit] (BlackjackGame_init 1 10 500 (tape [8, 21, 7, 20]))"
    by (simp only: g_def tie_game_def)
  have s: "game_state g = PLAYER_TURN" unfolding g_def by code_simp
  from hit_contract[OF g] s have t: "fst (hit g) = Returns True" by auto
  have v: "hand_value (hand (player (run [PlaceBet 100, Hit] tie_game))) = 21
   \<and> hand_value (hand (player (snd (hit (run [PlaceBet 100, Hit] tie_game))))) = 31
   \<and> round_result (snd (hit (run [PlaceBet 100, Hit] tie_game))) = Some BUSTED
   \<and> game_state (snd (hit (run [PlaceBet 100, Hit] tie_game))) = ROUND_OVER
   \<and> bankroll (player (snd (hit (run [PlaceBet 100, Hit] tie_game)))) = 900"
    by code_simp
  have g0: "run [] tie_game = run [] (BlackjackGame_init 1 10 500 (tape [8, 21, 7, 20]))"
    by (simp only: tie_game_def)
  have s0: "game_state (run [] tie_game) = BETTING"
    by (simp add: tie_game_def BlackjackGame_init_def)
  from hit_contract[OF g0] s0 have r: "hit (run [] tie_game) = (Returns False, run [] tie_game)"
    by simp
  from s t v s0 r show ?thesis unfolding g_def by blast
qed

subsection \<open>Stand and the dealer\<close>

lemma hand_value_cards [simp]:
  "hand_value (h\<lparr>Hand.cards := cs\<rparr>) = soften (raw_total cs) (ace_count cs)"
  by (simp add: hand_value_def)

lemma dealer_loop_stops:
  "\<not> hand_value (dealer_hand g) < 17 \<Longrightarrow> dealer_loop g = (Returns (), g)"
  by (subst dealer_loop.simps) simp

lemma dealer_loop_draws:
  "hand_value (dealer_hand g) < 17 \<Longrightarrow> draw (deck g) = (Returns c, d) \<Longrightarrow>
   dealer_loop g = dealer_loop (g\<lparr>deck := d, dealer_hand := add_card (dealer_hand g) c\<rparr>)"
  by (subst dealer_loop.simps) simp

lemma dealer_loop_from_shoe:
  "1 \<le> num_decks (deck g) \<Longrightarrow>
   \<exists>cs ds. length ds = Suc (length cs) \<and> ds ! 0 = deck g
     \<and> (\<forall>k<length cs. draw (ds ! k) = (Returns (cs ! k), ds ! Suc k))
     \<and> dealer_loop g =
       (Returns (), g\<lparr>deck := ds ! length cs,
          dealer_hand := (dealer_hand g)\<lparr>Hand.cards := Hand.cards (dealer_hand g) @ cs\<rparr>\<rparr>)
     \<and> 17 \<le> hand_value ((dealer_hand g)\<lparr>Hand.cards := Hand.cards (dealer_hand g) @ cs\<rparr>)
     \<and> (\<forall>k<length cs.
          hand_value ((dealer_hand g)\<lparr>Hand.cards := Hand.cards (dealer_hand g) @ take k cs\<rparr>)
            < 17)
     \<and> (17 \<le> hand_value (dealer_hand g) \<longrightarrow> cs = [])"
proof (induction g rule: dealer_loop.induct)
  case (1 g)
  show ?case
  proof (cases "hand_value (dealer_hand g) < 17")
    case False
    then have "dealer_loop g = (Returns (), g)" by (rule dealer_loop_stops)
    moreover from False have "17 \<le> hand_value (dealer_hand g)" by simp
    ultimately show ?thesis
      by (intro exI[of _ "[]"] exI[of _ "[deck g]"]) (simp add: hand_value_def)
  next
    case True
    from draw_succeeds[OF "1.prems"] obtain c d1 where
      dr: "draw (deck g) = (Returns c, d1)" and nd: "num_decks d1 = num_decks (deck g)"
      by blast
    define g1 where "g1 = g\<lparr>deck := d1, dealer_hand := add_card (dealer_hand g) c\<rparr>"
    have "1 \<le> num_decks (deck g1)" using nd "1.prems" by (simp add: g1_def)
    from "1.IH"[OF True dr[symmetric] refl, folded g1_def, OF this]
    obtain cs ds where
      len: "length ds = Suc (length cs)" and first: "ds ! 0 = deck g1"
      and drawn: "\<forall>k<length cs. draw (ds ! k) = (Returns (cs ! k), ds ! Suc k)"
      and run: "dealer_loop g1 =
       (Returns (), g1\<lparr>deck := ds ! length cs,
          dealer_hand := (dealer_hand g1)\<lparr>Hand.cards := Hand.cards (dealer_hand g1) @ cs\<rparr>\<rparr>)"
      and fin: "17 \<le> hand_value
          ((dealer_hand g1)\<lparr>Hand.cards := Hand.cards (dealer_hand g1) @ cs\<rparr>)"
      and below: "\<forall>k<length cs. hand_value
          ((dealer_hand g1)\<lparr>Hand.cards := Hand.cards (dealer_hand g1) @ take k cs\<rparr>) < 17"
      by blast
    have c1: "Hand.cards (dealer_hand g1) = Hand.cards (dealer_hand g) @ [c]"
      by (simp add: g1_def add_card_def)
    have d1: "ds ! 0 = d1" using first by (simp add: g1_def)
    have len': "length (deck g # ds) = Suc (length (c # cs))" using len by simp
    have first': "(deck g # ds) ! 0 = deck g" by simp
    have last': "(deck g # ds) ! length (c # cs) = ds ! length cs" by simp
    have drawn': "\<forall>k<length (c # cs).
        draw ((deck g # ds) ! k) = (Returns ((c # cs) ! k), (deck g # ds) ! Suc k)"
    proof (intro allI impI)
      fix k assume k: "k < length (c # cs)"
      show "draw ((deck g # ds) ! k) = (Returns ((c # cs) ! k), (deck g # ds) ! Suc k)"
      proof (cases k)
        case 0
        with dr d1 show ?thesis by simp
      next
        case (Suc j)
        with k have "j < length cs" by simp
        with drawn have "draw (ds ! j) = (Returns (cs ! j), ds ! Suc j)" by blast
        with Suc show ?thesis by simp
      qed
    qed
    have eq: "dealer_loop g =
       (Returns (), g\<lparr>deck := (deck g # ds) ! length (c # cs),
          dealer_hand := (dealer_hand g)\<lparr>Hand.cards := Hand.cards (dealer_hand g) @ c # cs\<rparr>\<rparr>)"
      using dealer_loop_draws[OF True dr] run by (simp add: g1_def add_card_def)
    have fin': "17 \<le> hand_value
        ((dealer_hand g)\<lparr>Hand.cards := Hand.cards (dealer_hand g) @ c # cs\<rparr>)"
      using fin by (simp add: c1)
    have below': "\<forall>k<length (c # cs). hand_value
          ((dealer_hand g)\<lparr>Hand.cards := Hand.cards (dealer_hand g) @ take k (c # cs)\<rparr>) < 17"
    proof (intro allI impI)
      fix k assume k: "k < length (c # cs)"
      show "hand_value
          ((dealer_hand g)\<lparr>Hand.cards := Hand.cards (dealer_hand g) @ take k (c # cs)\<rparr>) < 17"
      proof (cases k)
        case 0
        with True show ?thesis by (simp add: hand_value_def)
      next
        case (Suc j)
        with k have "j < length cs" by simp
        with below have "hand_value
          ((dealer_hand g1)\<lparr>Hand.cards := Hand.cards (dealer_hand g1) @ take j cs\<rparr>) < 17"
          by blast
        with Suc show ?thesis by (simp add: c1)
      qed
    qed
    have notyet: "17 \<le> hand_value (dealer_hand g) \<longrightarrow> c # cs = []" using True by simp
    from len' first' drawn' eq fin' below' notyet show ?thesis
      by (intro exI[of _ "c # cs"] exI[of _ "deck g # ds"]) blast
  qed
qed

lemma determine_round_result_explicit:
  "determine_round_result g =
     g\<lparr>round_result :=
         Some (if hand_value (hand (player g)) > 21 then BUSTED
               else if hand_value (dealer_hand g) > 21 then VICTORY
               else if hand_value (hand (player g)) > hand_value (dealer_hand g) then VICTORY
               else if hand_value (hand (player g)) < hand_value (dealer_hand g) then LOSS
               else TIE),
       player := (player g)\<lparr>bankroll := bankroll (player g) +
           (if hand_value (hand (player g)) > 21 then 0
            else if hand_value (dealer_hand g) > 21 then bet (hand (player g)) * 2
            else if hand_value (hand (player g)) > hand_value (dealer_hand g)
              then bet (hand (player g)) * 2
            else if hand_value (hand (player g)) < hand_value (dealer_hand g) then 0
            else bet (hand (player g)))\<rparr>,
       game_state := ROUND_OVER\<rparr>"
  by (simp add: determine_round_result_def credit_def is_busted_def Let_def)

lemma determine_round_result_frame:
  "game_state (determine_round_result g) = ROUND_OVER"
  "dealer_hand (determine_round_result g) = dealer_hand g"
  "hand (player (determine_round_result g)) = hand (player g)"
  "round_result (determine_round_result g) \<noteq> None"
  by (simp_all add: determine_round_result_def credit_def Let_def)

lemma stand_accepted:
  assumes "game_state g = PLAYER_TURN"
    and "dealer_loop (g\<lparr>game_state := DEALER_TURN\<rparr>) = (Returns (), gl)"
  shows "stand g = (Returns True, determine_round_result gl)"
  using assms by (simp add: stand_def dealer_play_def)

text \<open>
  Claim C9. Let the engine be in any state that the constructor and a sequence of
  public calls can produce. Outside PLAYER_TURN \<open>stand\<close> returns false and changes
  nothing. In PLAYER_TURN it returns true. The dealer's loop, entered in DEALER_TURN,
  terminates without raising: it appends cards \<open>cs\<close> to the dealer's hand, each the
  result of \<open>draw\<close> on the shoe the previous draw left (\<open>ds\<close> is the sequence of
  shoes, from the engine's shoe to the final one), and it draws only while the value so
  far is below 17, so not at all when the value is already 17 or more, soft or hard, and
  the final dealer value \<open>dv\<close> is at least 17. The settlement then decides, in this
  order, with \<open>p\<close> the player's value: BUSTED when \<open>p > 21\<close>, VICTORY when
  \<open>dv > 21\<close>, VICTORY when \<open>p > dv\<close>, LOSS when \<open>p < dv\<close>, TIE otherwise;
  it adds to the bankroll twice the bet recorded in the hand on VICTORY, that bet on
  TIE and nothing otherwise, and sets the state ROUND_OVER. Nothing else changes.
\<close>

theorem stand_contract:
  assumes "g = run xs (BlackjackGame_init n lo hi t)"
  shows "(game_state g \<noteq> PLAYER_TURN \<longrightarrow> stand g = (Returns False, g))
       \<and> (game_state g = PLAYER_TURN \<longrightarrow>
           (\<exists>cs ds gl p dv.
              length ds = Suc (length cs) \<and> ds ! 0 = deck g
            \<and> (\<forall>k<length cs. draw (ds ! k) = (Returns (cs ! k), ds ! Suc k))
            \<and> (\<forall>k<length cs.
                 hand_value ((dealer_hand g)\<lparr>Hand.cards :=
                     Hand.cards (dealer_hand g) @ take k cs\<rparr>) < 17)
            \<and> (17 \<le> hand_value (dealer_hand g) \<longrightarrow> cs = [])
            \<and> gl = g\<lparr>game_state := DEALER_TURN, deck := ds ! length cs,
                     dealer_hand :=
                       (dealer_hand g)\<lparr>Hand.cards := Hand.cards (dealer_hand g) @ cs\<rparr>\<rparr>
            \<and> dealer_loop (g\<lparr>game_state := DEALER_TURN\<rparr>) = (Returns (), gl)
            \<and> p = hand_value (hand (player g)) \<and> dv = hand_value (dealer_hand gl)
            \<and> 17 \<le> dv
            \<and> stand g = (Returns True,
                 gl\<lparr>round_result :=
                       Some (if p > 21 then BUSTED
                             else if dv > 21 then VICTORY
                             else if p > dv then VICTORY
                             else if p < dv then LOSS
                             else TIE),
                     player := (player g)\<lparr>bankroll := bankroll (player g) +
                         (if p > 21 then 0
                          else if dv > 21 then bet (hand (player g)) * 2
                          else if p > dv then bet (hand (player g)) * 2
                          else if p < dv then 0
                          else bet (hand (player g)))\<rparr>,
                     game_state := ROUND_OVER\<rparr>)))"
proof (intro conjI impI)
  assume "game_state g \<noteq> PLAYER_TURN"
  then show "stand g = (Returns False, g)" by (rule stand_rejected)
next
  assume pt: "game_state g = PLAYER_TURN"
  with assms have "1 \<le> num_decks (deck g)" by (rule player_turn_has_deck)
  then have "1 \<le> num_decks (deck (g\<lparr>game_state := DEALER_TURN\<rparr>))" by simp
  from dealer_loop_from_shoe[OF this] obtain cs ds where
    len: "length ds = Suc (length cs)"
    and first: "ds ! 0 = deck (g\<lparr>game_state := DEALER_TURN\<rparr>)"
    and drawn: "\<forall>k<length cs. draw (ds ! k) = (Returns (cs ! k), ds ! Suc k)"
    and run: "dealer_loop (g\<lparr>game_state := DEALER_TURN\<rparr>) =
       (Returns (), g\<lparr>game_state := DEALER_TURN\<rparr>\<lparr>deck := ds ! length cs,
          dealer_hand := (dealer_hand (g\<lparr>game_state := DEALER_TURN\<rparr>))
            \<lparr>Hand.cards := Hand.cards (dealer_hand (g\<lparr>game_state := DEALER_TURN\<rparr>)) @ cs\<rparr>\<rparr>)"
    and fin: "17 \<le> hand_value ((dealer_hand (g\<lparr>game_state := DEALER_TURN\<rparr>))
            \<lparr>Hand.cards := Hand.cards (dealer_hand (g\<lparr>game_state := DEALER_TURN\<rparr>)) @ cs\<rparr>)"
    and below: "\<forall>k<length cs. hand_value ((dealer_hand (g\<lparr>game_state := DEALER_TURN\<rparr>))
            \<lparr>Hand.cards := Hand.cards (dealer_hand (g\<lparr>game_state := DEALER_TURN\<rparr>))
               @ take k cs\<rparr>) < 17"
    and same: "17 \<le> hand_value (dealer_hand (g\<lparr>game_state := DEALER_TURN\<rparr>)) \<longrightarrow> cs = []"
    by blast
  define gl where "gl = g\<lparr>game_state := DEALER_TURN, deck := ds ! length cs,
                     dealer_hand :=
                       (dealer_hand g)\<lparr>Hand.cards := Hand.cards (dealer_hand g) @ cs\<rparr>\<rparr>"
  define p where "p = hand_value (hand (player g))"
  define dv where "dv = hand_value (dealer_hand gl)"
  have first': "ds ! 0 = deck g" using first by simp
  have run': "dealer_loop (g\<lparr>game_state := DEALER_TURN\<rparr>) = (Returns (), gl)"
    using run by (simp add: gl_def)
  have below': "\<forall>k<length cs.
                 hand_value ((dealer_hand g)\<lparr>Hand.cards :=
                     Hand.cards (dealer_hand g) @ take k cs\<rparr>) < 17"
    using below by simp
  have same': "17 \<le> hand_value (dealer_hand g) \<longrightarrow> cs = []"
    using same by simp
  have dl: "17 \<le> dv" using fin by (simp add: gl_def dv_def)
  have pl: "player gl = player g" by (simp add: gl_def)
  have st: "stand g = (Returns True,
                 gl\<lparr>round_result :=
                       Some (if p > 21 then BUSTED
                             else if dv > 21 then VICTORY
                             else if p > dv then VICTORY
                             else if p < dv then LOSS
                             else TIE),
                     player := (player g)\<lparr>bankroll := bankroll (player g) +
                         (if p > 21 then 0
                          else if dv > 21 then bet (hand (player g)) * 2
                          else if p > dv then bet (hand (player g)) * 2
                          else if p < dv then 0
                          else bet (hand (player g)))\<rparr>,
                     game_state := ROUND_OVER\<rparr>)"
    unfolding stand_accepted[OF pt run'] determine_round_result_explicit[of gl] pl p_def dv_def
    by (rule refl)
  from len first' drawn below' same' gl_def run' p_def dv_def dl st
  show "\<exists>cs ds gl p dv.
              length ds = Suc (length cs) \<and> ds ! 0 = deck g
            \<and> (\<forall>k<length cs. draw (ds ! k) = (Returns (cs ! k), ds ! Suc k))
            \<and> (\<forall>k<length cs.
                 hand_value ((dealer_hand g)\<lparr>Hand.cards :=
                     Hand.cards (dealer_hand g) @ take k cs\<rparr>) < 17)
            \<and> (17 \<le> hand_value (dealer_hand g) \<longrightarrow> cs = [])
            \<and> gl = g\<lparr>game_state := DEALER_TURN, deck := ds ! length cs,
                     dealer_hand :=
                       (dealer_hand g)\<lparr>Hand.cards := Hand.cards (dealer_hand g) @ cs\<rparr>\<rparr>
            \<and> dealer_loop (g\<lparr>game_state := DEALER_TURN\<rparr>) = (Returns (), gl)
            \<and> p = hand_value (hand (player g)) \<and> dv = hand_value (dealer_hand gl)
            \<and> 17 \<le> dv
            \<and> stand g = (Returns True,
                 gl\<lparr>round_result :=
                       Some (if p > 21 then BUSTED
                             else if dv > 21 then VICTORY
                             else if p > dv then VICTORY
                             else if p < dv then LOSS
                             else TIE),
                     player := (player g)\<lparr>bankroll := bankroll (player g) +
                         (if p > 21 then 0
                          else if dv > 21 then bet (hand (player g)) * 2
                          else if p > dv then bet (hand (player g)) * 2
                          else if p < dv then 0
                          else bet (hand (player g)))\<rparr>,
                     game_state := ROUND_OVER\<rparr>)"
    by blast
qed

theorem stand_contract_witness:
  "game_state (run [PlaceBet 100] dealer_draws_game) = PLAYER_TURN
   \<and> Hand.cards (dealer_hand (run [PlaceBet 100] dealer_draws_game))
       = [Card Hearts R2, Card Hearts R3]
   \<and> deck_len (deck (run [PlaceBet 100] dealer_draws_game)) = 48
   \<and> fst (stand (run [PlaceBet 100] dealer_draws_game)) = Returns True
   \<and> game_state (snd (stand (run [PlaceBet 100] dealer_draws_game))) = ROUND_OVER
   \<and> Hand.cards (dealer_hand (snd (stand (run [PlaceBet 100] dealer_draws_game))))
       = [Card Hearts R2, Card Hearts R3, Card Spades K, Card Spades R10]
   \<and> deck_len (deck (snd (stand (run [PlaceBet 100] dealer_draws_game)))) = 46
   \<and> hand_value (dealer_hand (snd (stand (run [PlaceBet 100] dealer_draws_game)))) = 25
   \<and> hand_value (hand (player (snd (stand (run [PlaceBet 100] dealer_draws_game))))) = 19
   \<and> round_result (snd (stand (run [PlaceBet 100] dealer_draws_game))) = Some VICTORY
   \<and> round_result (snd (stand (run [PlaceBet 100] tie_game))) = Some TIE
   \<and> game_state (run [] dealer_draws_game) = BETTING
   \<and> stand (run [] dealer_draws_game) = (Returns False, run [] dealer_draws_game)"
proof -
  define g where "g = run [PlaceBet 100] dealer_draws_game"
  have g: "g = run [PlaceBet 100] (BlackjackGame_init 1 10 500 (tape [8, 0, 7, 1]))"
    by (simp only: g_def dealer_draws_game_def)
  have s: "game_state g = PLAYER_TURN" unfolding g_def by code_simp
  from stand_contract[OF g] s have t: "fst (stand g) = Returns True"
    and o: "game_state (snd (stand g)) = ROUND_OVER" by auto
  have v: "Hand.cards (dealer_hand (run [PlaceBet 100] dealer_draws_game))
       = [Card Hearts R2, Card Hearts R3]
   \<and> deck_len (deck (run [PlaceBet 100] dealer_draws_game)) = 48
   \<and> Hand.cards (dealer_hand (snd (stand (run [PlaceBet 100] dealer_draws_game))))
       = [Card Hearts R2, Card Hearts R3, Card Spades K, Card Spades R10]
   \<and> deck_len (deck (snd (stand (run [PlaceBet 100] dealer_draws_game)))) = 46
   \<and> hand_value (dealer_hand (snd (stand (run [PlaceBet 100] dealer_draws_game)))) = 25
   \<and> hand_value (hand (player (snd (stand (run [PlaceBet 100] dealer_draws_game))))) = 19
   \<and> round_result (snd (stand (run [PlaceBet 100] dealer_draws_game))) = Some VICTORY
   \<and> round_result (snd (stand (run [PlaceBet 100] tie_game))) = Some TIE"
    by code_simp
  have g0: "run [] dealer_draws_game = run [] (BlackjackGame_init 1 10 500 (tape [8, 0, 7, 1]))"
    by (simp only: dealer_draws_game_def)
  have s0: "game_state (run [] dealer_draws_game) = BETTING"
    by (simp add: dealer_draws_game_def BlackjackGame_init_def)
  from stand_contract[OF g0] s0
  have r: "stand (run [] dealer_draws_game) = (Returns False, run [] dealer_draws_game)"
    by simp
  from s t o v s0 r show ?thesis unfolding g_def by blast
qed

subsection \<open>Settlement\<close>

text \<open>
  Both settlements compute their credit from the bet recorded in the player's hand, with
  the branches and factors of the specification.
\<close>

lemma handle_blackjack_credit:
  assumes "Hand.cards (dealer_hand g) = up # rest"
  shows "handle_blackjack g =
     (Returns (),
      (if card_value up \<ge> 10 \<and> length (up # rest) = 2 \<and> hand_value (dealer_hand g) = 21
       then credit (bet (hand (player g))) (g\<lparr>round_result := Some TIE\<rparr>)
       else credit (int_times_2_5 (bet (hand (player g)))) (g\<lparr>round_result := Some BLACKJACK\<rparr>))
      \<lparr>game_state := ROUND_OVER\<rparr>)"
  using assms by (simp add: handle_blackjack_def)

lemma int_times_2_5_floor: "0 \<le> b \<Longrightarrow> int_times_2_5 b = (5 * b) div 2"
  by (simp add: int_times_2_5_def)

lemma int_times_2_5_100: "int_times_2_5 100 = 250"
  by (simp add: int_times_2_5_def)

lemma determine_round_result_credit:
  "bankroll (player (determine_round_result g)) =
     bankroll (player g) +
       (if hand_value (hand (player g)) > 21 then 0
        else if hand_value (dealer_hand g) > 21 then bet (hand (player g)) * 2
        else if hand_value (hand (player g)) > hand_value (dealer_hand g)
          then bet (hand (player g)) * 2
        else if hand_value (hand (player g)) < hand_value (dealer_hand g) then 0
        else bet (hand (player g)))"
  by (simp add: determine_round_result_def credit_def is_busted_def Let_def)

lemma determine_round_result_outcome:
  "round_result (determine_round_result g) =
     Some (if hand_value (hand (player g)) > 21 then BUSTED
           else if hand_value (dealer_hand g) > 21 then VICTORY
           else if hand_value (hand (player g)) > hand_value (dealer_hand g) then VICTORY
           else if hand_value (hand (player g)) < hand_value (dealer_hand g) then LOSS
           else TIE)"
  by (simp add: determine_round_result_def credit_def is_busted_def Let_def)

text \<open>
  Claim C1 against the code. The constructed engine \<open>blackjack_game\<close> has a bankroll of
  1000. A bet of 100 is accepted; the player is dealt the ace of spades and the king of
  hearts, the dealer shows the 7 of hearts. The round is settled as BLACKJACK, but the
  hand's bet was cleared before the settlement read it: the bankroll ends at 900, where
  the claim gives 900 + 250 = 1150.
\<close>

theorem blackjack_pays_nothing:
  "bankroll (player blackjack_game) = 1000
   \<and> fst (place_bet blackjack_game 100) = Returns True
   \<and> Hand.cards (hand (player (snd (place_bet blackjack_game 100))))
       = [Card Spades A, Card Hearts K]
   \<and> is_blackjack (hand (player (snd (place_bet blackjack_game 100))))
   \<and> Hand.cards (dealer_hand (snd (place_bet blackjack_game 100)))
       = [Card Hearts R7, Card Hearts R2]
   \<and> round_result (snd (place_bet blackjack_game 100)) = Some BLACKJACK
   \<and> game_state (snd (place_bet blackjack_game 100)) = ROUND_OVER
   \<and> bet (hand (player (snd (place_bet blackjack_game 100)))) = 0
   \<and> bankroll (player (snd (place_bet blackjack_game 100))) = 900"
  by code_simp

text \<open>
  Claim C2 against the code. In \<open>tie_game\<close> the player bets 100 of 1000 and stands on
  19 against the dealer's 19: the result is TIE and the bankroll stays at 900, where the
  claim refunds the bet (1000). In \<open>dealer_draws_game\<close> the player bets 100, stands
  on 19 and the dealer busts with 25: the result is VICTORY and the bankroll stays at
  900, where the claim pays twice the bet (1100).
\<close>

theorem standard_settlement_pays_nothing:
  "bankroll (player tie_game) = 1000
   \<and> bankroll (player (run [PlaceBet 100] tie_game)) = 900
   \<and> hand_value (hand (player (run [PlaceBet 100, Stand] tie_game))) = 19
   \<and> hand_value (dealer_hand (run [PlaceBet 100, Stand] tie_game)) = 19
   \<and> round_result (run [PlaceBet 100, Stand] tie_game) = Some TIE
   \<and> game_state (run [PlaceBet 100, Stand] tie_game) = ROUND_OVER
   \<and> bankroll (player (run [PlaceBet 100, Stand] tie_game)) = 900
   \<and> bankroll (player dealer_draws_game) = 1000
   \<and> hand_value (hand (player (run [PlaceBet 100, Stand] dealer_draws_game))) = 19
   \<and> hand_value (dealer_hand (run [PlaceBet 100, Stand] dealer_draws_game)) = 25
   \<and> round_result (run [PlaceBet 100, Stand] dealer_draws_game) = Some VICTORY
   \<and> game_state (run [PlaceBet 100, Stand] dealer_draws_game) = ROUND_OVER
   \<and> bankroll (player (run [PlaceBet 100, Stand] dealer_draws_game)) = 900"
  by code_simp

end
